theory Spec2Isabelle
  imports Complex_Main "HOL-Library.Monad_Syntax"
begin

section \<open>Conventions of the embedding\<close>

text \<open>
  The engine computes on \<open>float\<close> and \<open>double\<close>. The embedding reads every such value
  as a \<^typ>\<open>real\<close> and the arithmetic on sample values, gains and levels as exact:
  the rounding of those values is not modelled. Rounding is modelled where a rounded
  result is converted to an integer or decides how often a loop runs: the lookahead
  length of the limiter (\<open>fl32\<close>) and the ratio and position of the resampler
  (\<open>fl64\<close>). What exact arithmetic would hide is written out as well:
  \<^item> a division whose divisor can be zero is \<open>fdiv\<close>, whose result \<open>None\<close> stands
    for the non-finite value (infinity or NaN) that IEEE arithmetic produces there and
    that every later operation of the same function keeps non-finite; the other
    divisions have a divisor that the initialisers and setters keep away from zero
    (a clamped time, the hysteresis factor, the sample rate of 48000, a sample count
    that was just compared with a positive bound);
  \<^item> an access outside a vector, or a loop the C++ code never leaves, is the result
    \<open>None\<close> of the function that contains it;
  \<^item> \<open>size_t\<close> is a \<^typ>\<open>nat\<close>; where the source subtracts below zero the
    wrap-around modulo \<open>2 ^ 64\<close> is written out.
\<close>

definition clampf :: "real \<Rightarrow> real \<Rightarrow> real \<Rightarrow> real" where
  \<comment> \<open>\<open>std::clamp(v, lo, hi)\<close>\<close>
  "clampf v lo hi = (if v < lo then lo else if hi < v then hi else v)"

definition fdiv :: "real \<Rightarrow> real \<Rightarrow> real option" where
  \<comment> \<open>float division; a zero divisor gives a non-finite value\<close>
  "fdiv a b = (if b = 0 then None else Some (a / b))"

definition rne :: "real \<Rightarrow> int" where
  \<comment> \<open>the nearest integer, a tie going to the even one\<close>
  "rne x = (let f = \<lfloor>x\<rfloor>; d = x - of_int f
            in if d < 1 / 2 then f else if 1 / 2 < d then f + 1
               else if even f then f else f + 1)"

definition fl_round :: "nat \<Rightarrow> real \<Rightarrow> real" where
  \<comment> \<open>the result of an IEEE operation whose exact value is \<open>x\<close>, in a binary format
     with a significand of \<open>p\<close> bits and the default rounding (to nearest, ties to
     even). The exponent is not bounded: overflow and subnormal numbers are not
     modelled\<close>
  "fl_round p x =
     (if x = 0 then 0
      else let e = \<lfloor>log 2 \<bar>x\<bar>\<rfloor>; ulp = 2 powr (of_int e - (real p - 1))
           in of_int (rne (x / ulp)) * ulp)"

definition fl32 :: "real \<Rightarrow> real" where
  \<comment> \<open>rounding to \<open>float\<close>\<close>
  "fl32 x = fl_round 24 x"

definition fl64 :: "real \<Rightarrow> real" where
  \<comment> \<open>rounding to \<open>double\<close>\<close>
  "fl64 x = fl_round 53 x"

definition log10 :: "real \<Rightarrow> real" where
  "log10 x = log 10 x"

definition pow10 :: "real \<Rightarrow> real" where
  \<comment> \<open>\<open>std::pow(10.0f, y)\<close>\<close>
  "pow10 y = 10 powr y"

definition coeff_ms :: "real \<Rightarrow> real \<Rightarrow> real" where
  \<comment> \<open>\<open>std::exp(-1.0f / (ms * sampleRate_ / 1000.0f))\<close>\<close>
  "coeff_ms ms sampleRate = exp (- 1 / (ms * sampleRate / 1000))"

section \<open>Compressor (dsp/compressor.cpp)\<close>

record compressor =
  cmp_enabled :: bool
  cmp_thresholdDb :: real
  cmp_ratio :: real
  cmp_kneeDb :: real
  cmp_attackCoeff :: real
  cmp_releaseCoeff :: real
  cmp_makeupGain :: real
  cmp_envelope :: real
  cmp_gainReductionDb :: real
  cmp_smoothedGain :: real
  cmp_sampleRate :: real

definition cmp_setThreshold :: "real \<Rightarrow> compressor \<Rightarrow> compressor" where
  "cmp_setThreshold dbThreshold c = c\<lparr>cmp_thresholdDb := clampf dbThreshold (- 40) 0\<rparr>"

definition cmp_setRatio :: "real \<Rightarrow> compressor \<Rightarrow> compressor" where
  "cmp_setRatio ratio c = c\<lparr>cmp_ratio := clampf ratio 1 20\<rparr>"

definition cmp_setKnee :: "real \<Rightarrow> compressor \<Rightarrow> compressor" where
  "cmp_setKnee db c = c\<lparr>cmp_kneeDb := clampf db 0 12\<rparr>"

definition cmp_setAttack :: "real \<Rightarrow> compressor \<Rightarrow> compressor" where
  "cmp_setAttack ms c =
     c\<lparr>cmp_attackCoeff := coeff_ms (clampf ms (1 / 10) 100) (cmp_sampleRate c)\<rparr>"

definition cmp_setRelease :: "real \<Rightarrow> compressor \<Rightarrow> compressor" where
  "cmp_setRelease ms c =
     c\<lparr>cmp_releaseCoeff := coeff_ms (clampf ms 10 1000) (cmp_sampleRate c)\<rparr>"

definition cmp_setMakeupGain :: "real \<Rightarrow> compressor \<Rightarrow> compressor" where
  "cmp_setMakeupGain db c = c\<lparr>cmp_makeupGain := pow10 (clampf db 0 24 / 20)\<rparr>"

definition cmp_fields :: compressor where
  \<comment> \<open>the default member initialisers of compressor.h\<close>
  "cmp_fields =
     \<lparr>cmp_enabled = True, cmp_thresholdDb = - 18, cmp_ratio = 4, cmp_kneeDb = 6,
      cmp_attackCoeff = 0, cmp_releaseCoeff = 0, cmp_makeupGain = 1, cmp_envelope = 0,
      cmp_gainReductionDb = 0, cmp_smoothedGain = 1, cmp_sampleRate = 48000\<rparr>"

definition Compressor :: compressor where
  \<comment> \<open>the constructor\<close>
  "Compressor =
     cmp_setMakeupGain 6 (cmp_setRelease 100 (cmp_setAttack 10 (cmp_setKnee 6
       (cmp_setRatio 4 (cmp_setThreshold (- 18) cmp_fields)))))"

definition computeGainDb :: "compressor \<Rightarrow> real \<Rightarrow> real option" where
  \<comment> \<open>\<open>None\<close>: the returned float is not finite\<close>
  "computeGainDb c inputDb =
     (let kneeStart = cmp_thresholdDb c - cmp_kneeDb c / 2;
          kneeEnd = cmp_thresholdDb c + cmp_kneeDb c / 2
      in do {
        outputDb \<leftarrow>
          (if inputDb < kneeStart then Some inputDb
           else if inputDb > kneeEnd then do {
             q \<leftarrow> fdiv (inputDb - cmp_thresholdDb c) (cmp_ratio c);
             Some (cmp_thresholdDb c + q)
           }
           else do {
             let x = inputDb - kneeStart;
             let kneeWidth = cmp_kneeDb c;
             inv \<leftarrow> fdiv 1 (cmp_ratio c);
             slope \<leftarrow> fdiv (inv - 1) (2 * kneeWidth);
             Some (inputDb + slope * x * x)
           });
        Some (outputDb - inputDb)
      })"

fun cmp_sample :: "compressor \<Rightarrow> real \<Rightarrow> (compressor \<times> real) option" where
  \<comment> \<open>one iteration of the loop of \<open>Compressor::process\<close>\<close>
  "cmp_sample c input =
     (let level = \<bar>input\<bar> in
      if level < 1 / 10 ^ 10 then Some (c, input * cmp_smoothedGain c * cmp_makeupGain c)
      else
        let coeff = (if level > cmp_envelope c then cmp_attackCoeff c else cmp_releaseCoeff c);
            env = coeff * cmp_envelope c + (1 - coeff) * level;
            envelopeDb = 20 * log10 env
        in do {
          gainDb \<leftarrow> computeGainDb (c\<lparr>cmp_envelope := env\<rparr>) envelopeDb;
          let gain = pow10 (gainDb / 20);
          let smoothCoeff = 99 / 100;
          let sg = smoothCoeff * cmp_smoothedGain c + (1 - smoothCoeff) * gain;
          Some (c\<lparr>cmp_envelope := env, cmp_gainReductionDb := - gainDb, cmp_smoothedGain := sg\<rparr>,
                input * sg * cmp_makeupGain c)
        })"

fun cmp_loop :: "compressor \<Rightarrow> real list \<Rightarrow> (compressor \<times> real list) option" where
  "cmp_loop c [] = Some (c, [])"
| "cmp_loop c (x # xs) = do {
     (c1, y) \<leftarrow> cmp_sample c x;
     (c2, ys) \<leftarrow> cmp_loop c1 xs;
     Some (c2, y # ys)
   }"

definition cmp_process :: "compressor \<Rightarrow> real list \<Rightarrow> (compressor \<times> real list) option" where
  \<comment> \<open>\<open>Compressor::process\<close>; \<open>None\<close>: a non-finite gain was computed\<close>
  "cmp_process c buffer = (if \<not> cmp_enabled c then Some (c, buffer) else cmp_loop c buffer)"

section \<open>Expander (dsp/expander.cpp)\<close>

record expander =
  exp_enabled :: bool
  exp_threshold :: real
  exp_ratio :: real
  exp_attackCoeff :: real
  exp_releaseCoeff :: real
  exp_hysteresis :: real
  exp_envelope :: real
  exp_gainReductionDb :: real
  exp_gateOpen :: bool
  exp_sampleRate :: real

definition exp_setThreshold :: "real \<Rightarrow> expander \<Rightarrow> expander" where
  "exp_setThreshold dbThreshold e = e\<lparr>exp_threshold := pow10 (clampf dbThreshold (- 60) 0 / 20)\<rparr>"

definition exp_setRatio :: "real \<Rightarrow> expander \<Rightarrow> expander" where
  "exp_setRatio ratio e = e\<lparr>exp_ratio := clampf ratio 1 10\<rparr>"

definition exp_setAttack :: "real \<Rightarrow> expander \<Rightarrow> expander" where
  "exp_setAttack ms e =
     e\<lparr>exp_attackCoeff := coeff_ms (clampf ms (1 / 10) 100) (exp_sampleRate e)\<rparr>"

definition exp_setRelease :: "real \<Rightarrow> expander \<Rightarrow> expander" where
  "exp_setRelease ms e =
     e\<lparr>exp_releaseCoeff := coeff_ms (clampf ms 10 1000) (exp_sampleRate e)\<rparr>"

definition exp_setHysteresis :: "real \<Rightarrow> expander \<Rightarrow> expander" where
  "exp_setHysteresis db e = e\<lparr>exp_hysteresis := pow10 (clampf db 0 10 / 20)\<rparr>"

definition exp_fields :: expander where
  \<comment> \<open>the default member initialisers of expander.h\<close>
  "exp_fields =
     \<lparr>exp_enabled = True, exp_threshold = 1 / 100, exp_ratio = 2, exp_attackCoeff = 0,
      exp_releaseCoeff = 0, exp_hysteresis = 3 / 2, exp_envelope = 0,
      exp_gainReductionDb = 0, exp_gateOpen = False, exp_sampleRate = 48000\<rparr>"

definition Expander :: expander where
  \<comment> \<open>the constructor\<close>
  "Expander =
     exp_setHysteresis 3 (exp_setRelease 100 (exp_setAttack 5
       (exp_setRatio 2 (exp_setThreshold (- 40) exp_fields))))"

definition computeGain :: "expander \<Rightarrow> real \<Rightarrow> expander \<times> real" where
  \<comment> \<open>returns the expander with \<open>gainReductionDb_\<close> as the call leaves it, and the gain\<close>
  "computeGain e envelope =
     (if envelope < 1 / 10 ^ 10 then (e, 1 / 1000)
      else
        let envelopeDb = 20 * log10 envelope;
            thresholdDb = 20 * log10 (exp_threshold e)
        in if envelopeDb < thresholdDb then
             let belowDb = thresholdDb - envelopeDb;
                 expansionDb = belowDb * (exp_ratio e - 1)
             in (e\<lparr>exp_gainReductionDb := - expansionDb\<rparr>, pow10 (- expansionDb / 20))
           else (e\<lparr>exp_gainReductionDb := 0\<rparr>, 1))"

fun exp_sample :: "expander \<Rightarrow> real \<Rightarrow> expander \<times> real" where
  \<comment> \<open>one iteration of the loop of \<open>Expander::process\<close>\<close>
  "exp_sample e input =
     (let level = \<bar>input\<bar>;
          coeff = (if level > exp_envelope e then exp_attackCoeff e else exp_releaseCoeff e);
          env = coeff * exp_envelope e + (1 - coeff) * level;
          effectiveThreshold =
            (if exp_gateOpen e then exp_threshold e / exp_hysteresis e else exp_threshold e);
          gate = (if env > exp_threshold e then True
                  else if env < effectiveThreshold then False else exp_gateOpen e);
          (e1, gain) = computeGain (e\<lparr>exp_envelope := env, exp_gateOpen := gate\<rparr>) env
      in (e1, input * gain))"

fun exp_loop :: "expander \<Rightarrow> real list \<Rightarrow> expander \<times> real list" where
  "exp_loop e [] = (e, [])"
| "exp_loop e (x # xs) =
     (let (e1, y) = exp_sample e x; (e2, ys) = exp_loop e1 xs in (e2, y # ys))"

definition exp_process :: "expander \<Rightarrow> real list \<Rightarrow> expander \<times> real list" where
  \<comment> \<open>\<open>Expander::process\<close>\<close>
  "exp_process e buffer = (if \<not> exp_enabled e then (e, buffer) else exp_loop e buffer)"

section \<open>RNNoise processor (ai/rnnoise_processor.cpp)\<close>

text \<open>
  RNNoise itself is a library outside the repository. Its two entry points are
  parameters of the model: the result of \<open>rnnoise_create\<close> is a \<open>'st option\<close>
  (\<open>None\<close> is the null pointer), and \<open>rnnoise_process_frame\<close> is a function from the
  state and the 480 scaled input samples to the new state, the returned VAD
  probability and the 480 output samples (sample \<open>i\<close> of the output is the function's
  value at \<open>i\<close>).
\<close>

type_synonym 'st inference = "'st \<Rightarrow> real list \<Rightarrow> 'st \<times> real \<times> (nat \<Rightarrow> real)"

definition FRAME_SIZE :: nat where
  "FRAME_SIZE = 480"

record 'st rnnoise =
  rn_state :: "'st option"
  rn_frameBuffer :: "real list"
  rn_bufferPos :: nat
  rn_outputBuffer :: "real list"
  rn_outputPos :: nat
  rn_attenuation :: real
  rn_lastVAD :: real

definition RNNoiseProcessor :: "'st rnnoise" where
  \<comment> \<open>the constructor and the default member initialisers\<close>
  "RNNoiseProcessor =
     \<lparr>rn_state = None, rn_frameBuffer = replicate FRAME_SIZE 0, rn_bufferPos = 0,
      rn_outputBuffer = replicate (FRAME_SIZE * 4) 0, rn_outputPos = 0,
      rn_attenuation = 1, rn_lastVAD = 0\<rparr>"

definition rn_initialize :: "'st option \<Rightarrow> 'st rnnoise \<Rightarrow> bool \<times> 'st rnnoise \<times> string list" where
  \<comment> \<open>\<open>RNNoiseProcessor::initialize\<close>; the first argument is what \<open>rnnoise_create\<close>
     returns, the string list is what the call writes to \<open>std::cerr\<close>\<close>
  "rn_initialize created p =
     (let p1 = p\<lparr>rn_state := created\<rparr> in
      if rn_state p1 = None then (False, p1, [''Failed to create RNNoise state''])
      else (True, p1\<lparr>rn_bufferPos := 0, rn_outputPos := 0\<rparr>, []))"

definition setAttenuation :: "real \<Rightarrow> 'st rnnoise \<Rightarrow> 'st rnnoise" where
  "setAttenuation db p = p\<lparr>rn_attenuation := pow10 (clampf db (- 60) 0 / 20)\<rparr>"

definition vcopy :: "'a list \<Rightarrow> 'a list \<Rightarrow> nat \<Rightarrow> 'a list option" where
  \<comment> \<open>\<open>std::copy\<close> of \<open>src\<close> to \<open>dst.begin() + pos\<close>; \<open>None\<close> when it would write past
     the end of \<open>dst\<close>\<close>
  "vcopy src dst pos =
     (if pos + length src \<le> length dst
      then Some (take pos dst @ src @ drop (pos + length src) dst) else None)"

definition blend_sample :: "real \<Rightarrow> real \<Rightarrow> real \<Rightarrow> real" where
  \<comment> \<open>the two assignments to \<open>frame[i]\<close> in \<open>processFrame\<close>: the blend, then the
     overwrite by the processed sample\<close>
  "blend_sample attenuation processed original =
     (let frame_i = processed * (1 - attenuation) + original * attenuation;
          frame_i = processed
      in frame_i)"

definition processFrame :: "'st inference \<Rightarrow> 'st rnnoise \<Rightarrow> 'st rnnoise option" where
  \<comment> \<open>\<open>processFrame(frameBuffer_.data())\<close>; \<open>None\<close>: null state or a frame buffer
     shorter than \<open>FRAME_SIZE\<close>\<close>
  "processFrame infer p =
     (case rn_state p of
        None \<Rightarrow> None
      | Some st \<Rightarrow>
          if length (rn_frameBuffer p) < FRAME_SIZE then None
          else
            let frame = rn_frameBuffer p;
                scaledFrame = map (\<lambda>i. frame ! i * 32767) [0..<FRAME_SIZE];
                (st1, vad, out) = infer st scaledFrame;
                frame1 = map (\<lambda>i. blend_sample (rn_attenuation p) (out i / 32767) (frame ! i))
                           [0..<FRAME_SIZE]
            in Some (p\<lparr>rn_state := Some st1, rn_lastVAD := vad,
                       rn_frameBuffer := frame1 @ drop FRAME_SIZE frame\<rparr>))"

definition store_output :: "'st rnnoise \<Rightarrow> 'st rnnoise option" where
  \<comment> \<open>the copy of the processed frame into \<open>outputBuffer_\<close> "with wrapping"\<close>
  "store_output p =
     (let size = length (rn_outputBuffer p) in
      if size = 0 \<or> size < rn_outputPos p then None
      else do {
        let outputSpace = size - rn_outputPos p;
        ob \<leftarrow>
          (if outputSpace \<ge> FRAME_SIZE then vcopy (rn_frameBuffer p) (rn_outputBuffer p) (rn_outputPos p)
           else do {
             ob1 \<leftarrow> vcopy (take outputSpace (rn_frameBuffer p)) (rn_outputBuffer p) (rn_outputPos p);
             vcopy (drop outputSpace (rn_frameBuffer p)) ob1 0
           });
        Some (p\<lparr>rn_outputBuffer := ob, rn_outputPos := (rn_outputPos p + FRAME_SIZE) mod size,
                 rn_bufferPos := 0\<rparr>)
      })"

definition fill_frame :: "'st rnnoise \<Rightarrow> real list \<Rightarrow> nat \<Rightarrow> ('st rnnoise \<times> nat) option" where
  \<comment> \<open>"Fill the frame buffer": the first half of the loop body of \<open>process\<close>, returning
     the processor and the new \<open>inputPos\<close>; \<open>None\<close> when \<open>FRAME_SIZE - bufferPos_\<close>
     wraps around or the copy leaves the frame buffer\<close>
  "fill_frame p buffer inputPos =
     (if FRAME_SIZE < rn_bufferPos p then None
      else do {
        let samplesToBuffer = min (length buffer - inputPos) (FRAME_SIZE - rn_bufferPos p);
        fb \<leftarrow> vcopy (take samplesToBuffer (drop inputPos buffer)) (rn_frameBuffer p) (rn_bufferPos p);
        Some (p\<lparr>rn_frameBuffer := fb, rn_bufferPos := rn_bufferPos p + samplesToBuffer\<rparr>,
              inputPos + samplesToBuffer)
      })"

function rn_loop :: "'st inference \<Rightarrow> 'st rnnoise \<Rightarrow> real list \<Rightarrow> nat \<Rightarrow> 'st rnnoise option" where
  \<comment> \<open>\<open>while (inputPos < frames)\<close> of \<open>process\<close>, with \<open>frames = length buffer\<close>\<close>
  "rn_loop infer p buffer inputPos =
     (if inputPos < length buffer then
        (case fill_frame p buffer inputPos of
           None \<Rightarrow> None
         | Some (p1, inputPos1) \<Rightarrow>
             if rn_bufferPos p1 = FRAME_SIZE then
               (case processFrame infer p1 of
                  None \<Rightarrow> None
                | Some p2 \<Rightarrow>
                    (case store_output p2 of
                       None \<Rightarrow> None
                     | Some p3 \<Rightarrow> rn_loop infer p3 buffer inputPos1))
             else rn_loop infer p1 buffer inputPos1)
      else Some p)"
  by pat_completeness auto
termination
proof (relation "measure (\<lambda>(infer, p, buffer, inputPos).
         2 * (length buffer - inputPos) + (if rn_bufferPos p = FRAME_SIZE then 1 else 0))",
       goal_cases)
  case 1
  show ?case by simp
next
  case (2 infer p buffer inputPos x2 p1 inputPos1 p2 p3)
  then show ?case
    by (auto simp: fill_frame_def store_output_def Let_def FRAME_SIZE_def
        split: if_splits bind_splits)
next
  case (3 infer p buffer inputPos x2 p1 inputPos1)
  then show ?case
    by (auto simp: fill_frame_def Let_def FRAME_SIZE_def split: if_splits bind_splits)
qed

definition rn_process :: "'st inference \<Rightarrow> 'st rnnoise \<Rightarrow> real list \<Rightarrow> ('st rnnoise \<times> real list) option" where
  \<comment> \<open>\<open>RNNoiseProcessor::process(buffer, frames)\<close> with \<open>frames = length buffer\<close>; the
     subtraction in \<open>startPos\<close> is the one of \<open>size_t\<close>, modulo \<open>2 ^ 64\<close>. \<open>None\<close>: the
     loop failed, or the output buffer is empty and \<open>startPos\<close> is a remainder by 0\<close>
  "rn_process infer p buffer =
     (if rn_state p = None then Some (p, buffer)
      else do {
        p1 \<leftarrow> rn_loop infer p buffer 0;
        let size = length (rn_outputBuffer p1);
        let frames = length buffer;
        if size = 0 then None
        else
          let startPos = nat ((int (rn_outputPos p1) + int size - int frames) mod 2 ^ 64) mod size
          in Some (p1, map (\<lambda>i. rn_outputBuffer p1 ! ((startPos + i) mod size)) [0..<frames])
      })"

fun rn_run :: "'st inference \<Rightarrow> 'st rnnoise \<Rightarrow> real list list \<Rightarrow> 'st rnnoise option" where
  \<comment> \<open>a sequence of calls of \<open>process\<close>, one per block\<close>
  "rn_run infer p [] = Some p"
| "rn_run infer p (b # bs) =
     (case rn_process infer p b of None \<Rightarrow> None | Some (p1, out) \<Rightarrow> rn_run infer p1 bs)"

function complete_frames :: "'a list \<Rightarrow> 'a list list" where
  \<comment> \<open>the specification's view: the input stream cut into consecutive frames of
     \<open>FRAME_SIZE\<close> samples, an incomplete last frame left out\<close>
  "complete_frames xs =
     (if length xs < FRAME_SIZE then [] else take FRAME_SIZE xs # complete_frames (drop FRAME_SIZE xs))"
  by pat_completeness auto
termination
  by (relation "measure length") (auto simp: FRAME_SIZE_def)

definition recording :: "'st inference \<Rightarrow> ('st \<times> real list list) inference" where
  \<comment> \<open>an inference step that behaves as \<open>infer\<close> and keeps, beside the state of
     \<open>infer\<close>, the list of the arguments it has been called with, oldest first\<close>
  "recording infer =
     (\<lambda>(st, seen) frame.
        case infer st frame of (st1, vad, out) \<Rightarrow> ((st1, seen @ [frame]), vad, out))"

definition seen_frames :: "('st \<times> real list list) rnnoise \<Rightarrow> real list list" where
  \<comment> \<open>the arguments recorded in the state of a processor that runs a recording
     inference\<close>
  "seen_frames p = (case rn_state p of None \<Rightarrow> [] | Some (st, seen) \<Rightarrow> seen)"

definition rn_forget :: "('st \<times> real list list) rnnoise \<Rightarrow> 'st rnnoise" where
  \<comment> \<open>the same processor without the record of the arguments\<close>
  "rn_forget p =
     \<lparr>rn_state = map_option fst (rn_state p), rn_frameBuffer = rn_frameBuffer p,
      rn_bufferPos = rn_bufferPos p, rn_outputBuffer = rn_outputBuffer p,
      rn_outputPos = rn_outputPos p, rn_attenuation = rn_attenuation p,
      rn_lastVAD = rn_lastVAD p\<rparr>"


definition rn_inv :: "('st \<times> real list list) rnnoise \<Rightarrow> real list \<Rightarrow> bool" where
  \<comment> \<open>the state of an initialised processor that has consumed the samples \<open>xs\<close>:
     the frames the inference was called with so far, followed by the scaled content
     of the partly filled frame buffer, are the samples \<open>xs\<close> scaled\<close>
  "rn_inv p xs \<longleftrightarrow>
     rn_state p \<noteq> None \<and> length (rn_frameBuffer p) = FRAME_SIZE \<and>
     rn_bufferPos p < FRAME_SIZE \<and>
     length (rn_outputBuffer p) = FRAME_SIZE * 4 \<and> rn_outputPos p < FRAME_SIZE * 4 \<and>
     list_all (\<lambda>f. length f = FRAME_SIZE) (seen_frames p) \<and>
     concat (seen_frames p) @ map (\<lambda>x. x * 32767) (take (rn_bufferPos p) (rn_frameBuffer p)) =
       map (\<lambda>x. x * 32767) xs"

section \<open>Resampler (audio/resampler.cpp)\<close>

text \<open>
  \<open>initialize\<close> also builds a polyphase filter bank and a history buffer; \<open>process\<close>
  never reads them, and they are left out of the record. The engine creates its
  resamplers with \<open>INTERNAL_CHANNELS = 1\<close>; the channel count is a \<^typ>\<open>nat\<close>.
\<close>

record resampler =
  rs_ratio :: "real option"
  rs_srcRate :: int
  rs_dstRate :: int
  rs_channels :: nat
  rs_position :: real
  rs_lastSample :: real

definition rs_initialize :: "int \<Rightarrow> int \<Rightarrow> nat \<Rightarrow> resampler" where
  \<comment> \<open>\<open>Resampler::initialize\<close>, which always returns true; the ratio is the quotient
     rounded to \<open>double\<close>, and \<open>None\<close> when the division by the destination rate does
     not give a finite number\<close>
  "rs_initialize srcRate dstRate channels =
     \<lparr>rs_ratio = map_option fl64 (fdiv (real_of_int srcRate) (real_of_int dstRate)),
      rs_srcRate = srcRate,
      rs_dstRate = dstRate, rs_channels = channels, rs_position = 0, rs_lastSample = 0\<rparr>"

definition rd :: "'a list \<Rightarrow> nat \<Rightarrow> 'a option" where
  \<comment> \<open>\<open>v[i]\<close>; \<open>None\<close> outside the vector\<close>
  "rd v i = (if i < length v then Some (v ! i) else None)"

definition interpolate :: "nat \<Rightarrow> real list \<Rightarrow> real \<Rightarrow> real list option" where
  \<comment> \<open>the body of the \<open>while\<close> loop of \<open>process\<close> up to the increment of \<open>position_\<close>:
     the samples pushed to \<open>output\<close>, one per channel\<close>
  "interpolate channels input position =
     (let idx0 = nat \<lfloor>position\<rfloor>;
          idx1 = idx0 + 1;
          frac = position - real idx0
      in those (map (\<lambda>ch. do {
           sample0 \<leftarrow> rd input (idx0 * channels + ch);
           sample1 \<leftarrow> rd input (idx1 * channels + ch);
           Some (sample0 * (1 - frac) + sample1 * frac)
         }) [0..<channels]))"

partial_function (option) rs_loop :: "real \<Rightarrow> nat \<Rightarrow> real list \<Rightarrow> real \<Rightarrow> real \<Rightarrow> real list \<Rightarrow> (real \<times> real list) option" where
  \<comment> \<open>\<open>while (position_ < frames - 1)\<close>; \<open>bound\<close> is \<open>frames - 1\<close> as a \<open>double\<close>, and
     \<open>position_ += ratio_\<close> is rounded to \<open>double\<close>. \<open>None\<close>: a read outside \<open>input\<close>, a
     negative position converted to \<open>size_t\<close>, or a loop that is never left (a ratio
     that is not positive, or too small to move the position)\<close>
  "rs_loop ratio channels input bound position out =
     (if position < bound then
        (if position < 0 then None
         else do {
           ys \<leftarrow> interpolate channels input position;
           rs_loop ratio channels input bound (fl64 (position + ratio)) (out @ ys)
         })
      else Some (position, out))"

definition rs_process :: "resampler \<Rightarrow> real list \<Rightarrow> nat \<Rightarrow> (resampler \<times> real list) option" where
  \<comment> \<open>\<open>Resampler::process(input, frames)\<close>; \<open>frames - 1\<close> is the subtraction of
     \<open>size_t\<close>, which wraps to \<open>2 ^ 64 - 1\<close> for \<open>frames = 0\<close>, converted to \<open>double\<close>
     for the comparison, and \<open>position_ -= frames\<close> is rounded to \<open>double\<close>. A ratio
     that is not finite is not followed further and gives \<open>None\<close> as well, and so does
     a ratio that is not positive, for which \<open>frames / ratio_ + 1\<close> is not a valid
     \<open>size_t\<close>\<close>
  "rs_process r input frames =
     (if rs_srcRate r = rs_dstRate r then
        (if frames * rs_channels r \<le> length input
         then Some (r, take (frames * rs_channels r) input) else None)
      else do {
        let bound = fl64 (if frames = 0 then 2 ^ 64 - 1 else real (frames - 1));
        ratio \<leftarrow> rs_ratio r;
        (pos, output) \<leftarrow>
          (if ratio \<le> 0 then None
           else rs_loop ratio (rs_channels r) input bound (rs_position r) []);
        let pos1 = fl64 (pos - fl64 (real frames));
        let pos2 = (if pos1 < 0 then 0 else pos1);
        last \<leftarrow> (if frames > 0 then rd input ((frames - 1) * rs_channels r)
                 else Some (rs_lastSample r));
        Some (r\<lparr>rs_position := pos2, rs_lastSample := last\<rparr>, output)
      })"

fun rs_run :: "resampler \<Rightarrow> real list list \<Rightarrow> (resampler \<times> real list) option" where
  \<comment> \<open>consecutive calls of \<open>process\<close>, one per block of mono samples, and the
     concatenation of what they return\<close>
  "rs_run r [] = Some (r, [])"
| "rs_run r (b # bs) = do {
     (r1, out1) \<leftarrow> rs_process r b (length b div rs_channels r);
     (r2, out2) \<leftarrow> rs_run r1 bs;
     Some (r2, out1 @ out2)
   }"

section \<open>Ring buffer (audio/audio_buffer.cpp)\<close>

definition sz_sub :: "nat \<Rightarrow> nat \<Rightarrow> nat" where
  \<comment> \<open>\<open>a - b\<close> on \<open>size_t\<close>\<close>
  "sz_sub a b = (if b \<le> a then a - b else a + 2 ^ 64 - b)"

record ring =
  rb_buffer :: "real list"
  rb_capacity :: nat
  rb_writePos :: nat
  rb_readPos :: nat

definition LockFreeRingBuffer :: "nat \<Rightarrow> ring" where
  \<comment> \<open>the constructor\<close>
  "LockFreeRingBuffer capacity =
     \<lparr>rb_buffer = replicate (capacity + 1) 0, rb_capacity = capacity,
      rb_writePos = 0, rb_readPos = 0\<rparr>"

definition availableWrite :: "ring \<Rightarrow> nat" where
  "availableWrite rb =
     (if rb_writePos rb \<ge> rb_readPos rb
      then sz_sub (rb_capacity rb) (sz_sub (rb_writePos rb) (rb_readPos rb))
      else sz_sub (sz_sub (rb_readPos rb) (rb_writePos rb)) 1)"

definition availableRead :: "ring \<Rightarrow> nat" where
  "availableRead rb =
     (if rb_writePos rb \<ge> rb_readPos rb
      then sz_sub (rb_writePos rb) (rb_readPos rb)
      else sz_sub (length (rb_buffer rb)) (rb_readPos rb) + rb_writePos rb)"

definition rb_write :: "ring \<Rightarrow> real list \<Rightarrow> (ring \<times> nat) option" where
  \<comment> \<open>\<open>LockFreeRingBuffer::write(data, count)\<close> with \<open>count = length data\<close>: the ring
     and the returned number of samples written; \<open>None\<close>: a copy outside \<open>buffer_\<close>\<close>
  "rb_write rb data =
     (let currentWrite = rb_writePos rb;
          available = availableWrite rb;
          toWrite = min (length data) available
      in if toWrite = 0 then Some (rb, 0)
         else do {
           let bufferSize = length (rb_buffer rb);
           let firstPart = min toWrite (sz_sub bufferSize currentWrite);
           b1 \<leftarrow> vcopy (take firstPart data) (rb_buffer rb) currentWrite;
           b2 \<leftarrow> (if firstPart < toWrite
                  then vcopy (take (toWrite - firstPart) (drop firstPart data)) b1 0
                  else Some b1);
           Some (rb\<lparr>rb_buffer := b2, rb_writePos := (currentWrite + toWrite) mod bufferSize\<rparr>,
                 toWrite)
         })"

definition vread :: "'a list \<Rightarrow> nat \<Rightarrow> nat \<Rightarrow> 'a list option" where
  \<comment> \<open>the \<open>n\<close> elements of a vector from index \<open>pos\<close>; \<open>None\<close> when they are not all
     inside it\<close>
  "vread v pos n = (if pos + n \<le> length v then Some (take n (drop pos v)) else None)"

definition rb_read :: "ring \<Rightarrow> nat \<Rightarrow> (ring \<times> real list) option" where
  \<comment> \<open>\<open>LockFreeRingBuffer::read(data, count)\<close>: the ring and the samples copied to
     \<open>data\<close> (their number is the returned count)\<close>
  "rb_read rb count =
     (let currentRead = rb_readPos rb;
          available = availableRead rb;
          toRead = min count available
      in if toRead = 0 then Some (rb, [])
         else do {
           let bufferSize = length (rb_buffer rb);
           let firstPart = min toRead (sz_sub bufferSize currentRead);
           d1 \<leftarrow> vread (rb_buffer rb) currentRead firstPart;
           d2 \<leftarrow> (if firstPart < toRead then vread (rb_buffer rb) 0 (toRead - firstPart)
                  else Some []);
           Some (rb\<lparr>rb_readPos := (currentRead + toRead) mod bufferSize\<rparr>, d1 @ d2)
         })"

definition rb_inv :: "ring \<Rightarrow> bool" where
  \<comment> \<open>what the constructor establishes and \<open>write\<close> and \<open>read\<close> keep\<close>
  "rb_inv rb \<longleftrightarrow>
     length (rb_buffer rb) = rb_capacity rb + 1 \<and>
     rb_writePos rb \<le> rb_capacity rb \<and> rb_readPos rb \<le> rb_capacity rb"

definition rb_contents :: "ring \<Rightarrow> real list" where
  \<comment> \<open>the samples written and not yet read, oldest first\<close>
  "rb_contents rb =
     (if rb_readPos rb \<le> rb_writePos rb
      then take (rb_writePos rb - rb_readPos rb) (drop (rb_readPos rb) (rb_buffer rb))
      else drop (rb_readPos rb) (rb_buffer rb) @ take (rb_writePos rb) (rb_buffer rb))"

section \<open>Limiter (dsp/limiter.cpp)\<close>

record limiter =
  lim_enabled :: bool
  lim_ceiling :: real
  lim_releaseCoeff :: real
  lim_lookaheadSamples :: nat
  lim_lookaheadBuffer :: "real list"
  lim_bufferPos :: nat
  lim_gainReductionDb :: real
  lim_smoothedGain :: real
  lim_sampleRate :: real

definition setCeiling :: "real \<Rightarrow> limiter \<Rightarrow> limiter" where
  "setCeiling dbCeiling l = l\<lparr>lim_ceiling := pow10 (clampf dbCeiling (- 6) 0 / 20)\<rparr>"

definition lim_setRelease :: "real \<Rightarrow> limiter \<Rightarrow> limiter" where
  "lim_setRelease ms l = l\<lparr>lim_releaseCoeff := coeff_ms (clampf ms 10 500) (lim_sampleRate l)\<rparr>"

definition setLookahead :: "real \<Rightarrow> limiter \<Rightarrow> limiter" where
  \<comment> \<open>\<open>static_cast<size_t>(lookaheadMs * sampleRate_ / 1000.0f)\<close>: the product and
     the quotient are each rounded to \<open>float\<close>, and the cast truncates the non-negative
     result\<close>
  "setLookahead ms l =
     (let lookaheadMs = clampf ms 0 10;
          newLookahead = nat \<lfloor>fl32 (fl32 (lookaheadMs * lim_sampleRate l) / 1000)\<rfloor>
      in if newLookahead \<noteq> lim_lookaheadSamples l
         then l\<lparr>lim_lookaheadSamples := newLookahead,
                lim_lookaheadBuffer := replicate (newLookahead + 1) 0, lim_bufferPos := 0\<rparr>
         else l)"

definition lim_fields :: limiter where
  \<comment> \<open>the default member initialisers of limiter.h\<close>
  "lim_fields =
     \<lparr>lim_enabled = True, lim_ceiling = 891 / 1000, lim_releaseCoeff = 0,
      lim_lookaheadSamples = 0, lim_lookaheadBuffer = [], lim_bufferPos = 0,
      lim_gainReductionDb = 0, lim_smoothedGain = 1, lim_sampleRate = 48000\<rparr>"

definition Limiter :: limiter where
  \<comment> \<open>the constructor\<close>
  "Limiter = setLookahead 5 (lim_setRelease 50 (setCeiling (- 1) lim_fields))"

definition lim_reset :: "limiter \<Rightarrow> limiter" where
  "lim_reset l =
     l\<lparr>lim_lookaheadBuffer := replicate (length (lim_lookaheadBuffer l)) 0, lim_bufferPos := 0,
       lim_gainReductionDb := 0, lim_smoothedGain := 1\<rparr>"

definition targetGain :: "real \<Rightarrow> real \<Rightarrow> real option" where
  \<comment> \<open>"Calculate required gain" for a level, the input magnitude or the window peak\<close>
  "targetGain ceil level = (if level > ceil then fdiv ceil level else Some 1)"

definition peakLevel :: "real list \<Rightarrow> real" where
  \<comment> \<open>"Find peak in lookahead window"\<close>
  "peakLevel buf = foldl (\<lambda>peak s. max peak \<bar>s\<bar>) 0 buf"

definition lim_instant :: "limiter \<Rightarrow> real \<Rightarrow> (limiter \<times> real) option" where
  \<comment> \<open>one iteration of the loop without lookahead\<close>
  "lim_instant l input = do {
     let absInput = \<bar>input\<bar>;
     target \<leftarrow> targetGain (lim_ceiling l) absInput;
     let g = (if target < lim_smoothedGain l then target
              else lim_releaseCoeff l * lim_smoothedGain l + (1 - lim_releaseCoeff l) * target);
     Some (l\<lparr>lim_smoothedGain := g, lim_gainReductionDb := - 20 * log10 (max g (1 / 10000))\<rparr>,
           input * g)
   }"

definition lim_lookahead :: "limiter \<Rightarrow> real \<Rightarrow> (limiter \<times> real) option" where
  \<comment> \<open>one iteration of the loop with lookahead; \<open>None\<close>: \<open>bufferPos_\<close> outside the
     lookahead buffer\<close>
  "lim_lookahead l input = do {
     delayedSample \<leftarrow> rd (lim_lookaheadBuffer l) (lim_bufferPos l);
     let buf = (lim_lookaheadBuffer l)[lim_bufferPos l := input];
     target \<leftarrow> targetGain (lim_ceiling l) (peakLevel buf);
     let g = (if target < lim_smoothedGain l then
                let attackCoeff = exp (- 1 / real (lim_lookaheadSamples l))
                in attackCoeff * lim_smoothedGain l + (1 - attackCoeff) * target
              else lim_releaseCoeff l * lim_smoothedGain l + (1 - lim_releaseCoeff l) * target);
     Some (l\<lparr>lim_lookaheadBuffer := buf, lim_smoothedGain := g,
              lim_gainReductionDb := - 20 * log10 (max g (1 / 10000)),
              lim_bufferPos := (lim_bufferPos l + 1) mod length buf\<rparr>,
           delayedSample * g)
   }"

definition lim_sample :: "limiter \<Rightarrow> real \<Rightarrow> (limiter \<times> real) option" where
  "lim_sample l input =
     (if lim_lookaheadSamples l = 0 then lim_instant l input else lim_lookahead l input)"

fun lim_loop :: "limiter \<Rightarrow> real list \<Rightarrow> (limiter \<times> real list) option" where
  "lim_loop l [] = Some (l, [])"
| "lim_loop l (x # xs) = do {
     (l1, y) \<leftarrow> lim_sample l x;
     (l2, ys) \<leftarrow> lim_loop l1 xs;
     Some (l2, y # ys)
   }"

definition lim_process :: "limiter \<Rightarrow> real list \<Rightarrow> (limiter \<times> real list) option" where
  \<comment> \<open>\<open>Limiter::process\<close>\<close>
  "lim_process l buffer = (if \<not> lim_enabled l then Some (l, buffer) else lim_loop l buffer)"

fun lim_gains :: "limiter \<Rightarrow> real list \<Rightarrow> real list" where
  \<comment> \<open>an observation of the loop, not a function of the class: the value of
     \<open>smoothedGain_\<close> after each sample of the buffer\<close>
  "lim_gains l [] = []"
| "lim_gains l (x # xs) =
     (case lim_sample l x of
        None \<Rightarrow> []
      | Some (l1, y) \<Rightarrow> lim_smoothedGain l1 # lim_gains l1 xs)"

section \<open>Biquad filter and equalizer (dsp/biquad_filter.cpp, dsp/equalizer.cpp)\<close>

record biquad =
  bq_b0 :: real
  bq_b1 :: real
  bq_b2 :: real
  bq_a1 :: real
  bq_a2 :: real
  bq_z1 :: real
  bq_z2 :: real

definition BiquadFilter :: biquad where
  "BiquadFilter = \<lparr>bq_b0 = 1, bq_b1 = 0, bq_b2 = 0, bq_a1 = 0, bq_a2 = 0, bq_z1 = 0, bq_z2 = 0\<rparr>"

text \<open>
  The coefficient setters divide by \<open>2 * q\<close>, \<open>a0\<close> and \<open>A\<close>. The equalizer calls them
  with clamped frequencies and Q at 48 kHz; the divisions are written with HOL's
  division, and no property below depends on the value of a coefficient.
\<close>

definition bq_setHighPass :: "real \<Rightarrow> real \<Rightarrow> real \<Rightarrow> biquad \<Rightarrow> biquad" where
  "bq_setHighPass sampleRate frequency q f =
     (let omega = 2 * pi * frequency / sampleRate;
          sinOmega = sin omega; cosOmega = cos omega;
          alpha = sinOmega / (2 * q);
          a0 = 1 + alpha
      in f\<lparr>bq_b0 := ((1 + cosOmega) / 2) / a0, bq_b1 := (- (1 + cosOmega)) / a0,
           bq_b2 := ((1 + cosOmega) / 2) / a0, bq_a1 := (- 2 * cosOmega) / a0,
           bq_a2 := (1 - alpha) / a0\<rparr>)"

definition bq_setBandPass :: "real \<Rightarrow> real \<Rightarrow> real \<Rightarrow> biquad \<Rightarrow> biquad" where
  "bq_setBandPass sampleRate frequency q f =
     (let omega = 2 * pi * frequency / sampleRate;
          sinOmega = sin omega; cosOmega = cos omega;
          alpha = sinOmega / (2 * q);
          a0 = 1 + alpha
      in f\<lparr>bq_b0 := alpha / a0, bq_b1 := 0, bq_b2 := - alpha / a0,
           bq_a1 := (- 2 * cosOmega) / a0, bq_a2 := (1 - alpha) / a0\<rparr>)"

definition bq_setPeak :: "real \<Rightarrow> real \<Rightarrow> real \<Rightarrow> real \<Rightarrow> biquad \<Rightarrow> biquad" where
  "bq_setPeak sampleRate frequency q gainDb f =
     (let A = pow10 (gainDb / 40);
          omega = 2 * pi * frequency / sampleRate;
          sinOmega = sin omega; cosOmega = cos omega;
          alpha = sinOmega / (2 * q);
          a0 = 1 + alpha / A
      in f\<lparr>bq_b0 := (1 + alpha * A) / a0, bq_b1 := (- 2 * cosOmega) / a0,
           bq_b2 := (1 - alpha * A) / a0, bq_a1 := (- 2 * cosOmega) / a0,
           bq_a2 := (1 - alpha / A) / a0\<rparr>)"

definition bq_setLowShelf :: "real \<Rightarrow> real \<Rightarrow> real \<Rightarrow> real \<Rightarrow> biquad \<Rightarrow> biquad" where
  "bq_setLowShelf sampleRate frequency gainDb q f =
     (let A = pow10 (gainDb / 40);
          omega = 2 * pi * frequency / sampleRate;
          sinOmega = sin omega; cosOmega = cos omega;
          alpha = sinOmega / (2 * q);
          sqrtA = sqrt A;
          a0 = (A + 1) + (A - 1) * cosOmega + 2 * sqrtA * alpha
      in f\<lparr>bq_b0 := (A * ((A + 1) - (A - 1) * cosOmega + 2 * sqrtA * alpha)) / a0,
           bq_b1 := (2 * A * ((A - 1) - (A + 1) * cosOmega)) / a0,
           bq_b2 := (A * ((A + 1) - (A - 1) * cosOmega - 2 * sqrtA * alpha)) / a0,
           bq_a1 := (- 2 * ((A - 1) + (A + 1) * cosOmega)) / a0,
           bq_a2 := ((A + 1) + (A - 1) * cosOmega - 2 * sqrtA * alpha) / a0\<rparr>)"

definition bq_setHighShelf :: "real \<Rightarrow> real \<Rightarrow> real \<Rightarrow> real \<Rightarrow> biquad \<Rightarrow> biquad" where
  "bq_setHighShelf sampleRate frequency gainDb q f =
     (let A = pow10 (gainDb / 40);
          omega = 2 * pi * frequency / sampleRate;
          sinOmega = sin omega; cosOmega = cos omega;
          alpha = sinOmega / (2 * q);
          sqrtA = sqrt A;
          a0 = (A + 1) - (A - 1) * cosOmega + 2 * sqrtA * alpha
      in f\<lparr>bq_b0 := (A * ((A + 1) + (A - 1) * cosOmega + 2 * sqrtA * alpha)) / a0,
           bq_b1 := (- 2 * A * ((A - 1) + (A + 1) * cosOmega)) / a0,
           bq_b2 := (A * ((A + 1) + (A - 1) * cosOmega - 2 * sqrtA * alpha)) / a0,
           bq_a1 := (2 * ((A - 1) - (A + 1) * cosOmega)) / a0,
           bq_a2 := ((A + 1) - (A - 1) * cosOmega - 2 * sqrtA * alpha) / a0\<rparr>)"

definition bq_process :: "biquad \<Rightarrow> real \<Rightarrow> biquad \<times> real" where
  \<comment> \<open>\<open>BiquadFilter::process(float)\<close>\<close>
  "bq_process f input =
     (let output = bq_b0 f * input + bq_z1 f;
          z1 = bq_b1 f * input - bq_a1 f * output + bq_z2 f;
          z2 = bq_b2 f * input - bq_a2 f * output
      in (f\<lparr>bq_z1 := z1, bq_z2 := z2\<rparr>, output))"

record equalizer =
  eq_enabled :: bool
  eq_deEsserEnabled :: bool
  eq_highPass :: biquad
  eq_lowShelf :: biquad
  eq_presence :: biquad
  eq_highShelf :: biquad
  eq_deEsserDetect :: biquad
  eq_deEsserThreshold :: real
  eq_deEsserEnvelope :: real
  eq_sampleRate :: real

definition eq_setHighPass :: "real \<Rightarrow> real \<Rightarrow> equalizer \<Rightarrow> equalizer" where
  "eq_setHighPass freq q e =
     e\<lparr>eq_highPass := bq_setHighPass (eq_sampleRate e) (clampf freq 20 500)
                         (clampf q (1 / 2) 2) (eq_highPass e)\<rparr>"

definition eq_setLowShelf :: "real \<Rightarrow> real \<Rightarrow> equalizer \<Rightarrow> equalizer" where
  "eq_setLowShelf freq gain e =
     e\<lparr>eq_lowShelf := bq_setLowShelf (eq_sampleRate e) (clampf freq 80 300)
                         (clampf gain (- 12) 12) (707 / 1000) (eq_lowShelf e)\<rparr>"

definition eq_setPresence :: "real \<Rightarrow> real \<Rightarrow> real \<Rightarrow> equalizer \<Rightarrow> equalizer" where
  "eq_setPresence freq gain q e =
     e\<lparr>eq_presence := bq_setPeak (eq_sampleRate e) (clampf freq 2000 6000)
                         (clampf q (1 / 2) 4) (clampf gain (- 12) 12) (eq_presence e)\<rparr>"

definition eq_setHighShelf :: "real \<Rightarrow> real \<Rightarrow> equalizer \<Rightarrow> equalizer" where
  "eq_setHighShelf freq gain e =
     e\<lparr>eq_highShelf := bq_setHighShelf (eq_sampleRate e) (clampf freq 6000 16000)
                          (clampf gain (- 12) 12) (707 / 1000) (eq_highShelf e)\<rparr>"

definition eq_setDeEsser :: "real \<Rightarrow> real \<Rightarrow> equalizer \<Rightarrow> equalizer" where
  "eq_setDeEsser freq threshold e =
     e\<lparr>eq_deEsserDetect := bq_setBandPass (eq_sampleRate e) (clampf freq 4000 10000) 4
                              (eq_deEsserDetect e),
       eq_deEsserThreshold := pow10 (clampf threshold (- 40) 0 / 20)\<rparr>"

definition eq_fields :: equalizer where
  \<comment> \<open>the default member initialisers of equalizer.h\<close>
  "eq_fields =
     \<lparr>eq_enabled = True, eq_deEsserEnabled = False, eq_highPass = BiquadFilter,
      eq_lowShelf = BiquadFilter, eq_presence = BiquadFilter, eq_highShelf = BiquadFilter,
      eq_deEsserDetect = BiquadFilter, eq_deEsserThreshold = 1 / 10, eq_deEsserEnvelope = 0,
      eq_sampleRate = 48000\<rparr>"

definition Equalizer :: equalizer where
  \<comment> \<open>the constructor\<close>
  "Equalizer =
     eq_setDeEsser 6000 (- 20) (eq_setHighShelf 8000 0 (eq_setPresence 3000 0 1
       (eq_setLowShelf 200 0 (eq_setHighPass 80 (7 / 10) eq_fields))))"

definition eq_sample :: "equalizer \<Rightarrow> real \<Rightarrow> (equalizer \<times> real) option" where
  \<comment> \<open>one iteration of the loop of \<open>Equalizer::process\<close>; \<open>None\<close>: the de-esser divided
     by an envelope of zero\<close>
  "eq_sample e sample0 =
     (let (hp, s1) = bq_process (eq_highPass e) sample0;
          (ls, s2) = bq_process (eq_lowShelf e) s1;
          (pr, s3) = bq_process (eq_presence e) s2;
          (hs, s4) = bq_process (eq_highShelf e) s3;
          e1 = e\<lparr>eq_highPass := hp, eq_lowShelf := ls, eq_presence := pr, eq_highShelf := hs\<rparr>
      in if eq_deEsserEnabled e1 then
           let (de, sibilance) = bq_process (eq_deEsserDetect e1) s4;
               sibilanceLevel = \<bar>sibilance\<bar>;
               coeff = (if sibilanceLevel > eq_deEsserEnvelope e1 then 1 / 10 else 995 / 1000);
               env = coeff * eq_deEsserEnvelope e1 + (1 - coeff) * sibilanceLevel;
               e2 = e1\<lparr>eq_deEsserDetect := de, eq_deEsserEnvelope := env\<rparr>
           in if env > eq_deEsserThreshold e2 then do {
                reduction \<leftarrow> fdiv (eq_deEsserThreshold e2) env;
                Some (e2, s4 - sibilance * (1 - reduction))
              }
              else Some (e2, s4)
         else Some (e1, s4))"

fun eq_loop :: "equalizer \<Rightarrow> real list \<Rightarrow> (equalizer \<times> real list) option" where
  "eq_loop e [] = Some (e, [])"
| "eq_loop e (x # xs) = do {
     (e1, y) \<leftarrow> eq_sample e x;
     (e2, ys) \<leftarrow> eq_loop e1 xs;
     Some (e2, y # ys)
   }"

definition eq_process :: "equalizer \<Rightarrow> real list \<Rightarrow> (equalizer \<times> real list) option" where
  \<comment> \<open>\<open>Equalizer::process\<close>\<close>
  "eq_process e buffer = (if \<not> eq_enabled e then Some (e, buffer) else eq_loop e buffer)"

section \<open>Metering (dsp/metering.cpp)\<close>

record metering =
  mt_sampleRate :: real
  mt_peak :: real
  mt_peakDb :: real
  mt_peakDecayCoeff :: real
  mt_rms :: real
  mt_rmsDb :: real
  mt_rmsSum :: real
  mt_rmsCount :: nat
  mt_lufs :: real
  mt_lufsBuffer :: "real list"
  mt_lufsPos :: nat

definition RMS_WINDOW_SAMPLES :: nat where
  "RMS_WINDOW_SAMPLES = 48000 * 300 div 1000"

definition LUFS_WINDOW_SAMPLES :: nat where
  "LUFS_WINDOW_SAMPLES = 48000 * 3"

definition setPeakDecay :: "real \<Rightarrow> metering \<Rightarrow> metering" where
  "setPeakDecay ms m = m\<lparr>mt_peakDecayCoeff := coeff_ms (clampf ms 100 5000) (mt_sampleRate m)\<rparr>"

definition Metering :: metering where
  \<comment> \<open>the constructor and the default member initialisers\<close>
  "Metering =
     setPeakDecay 1500
       \<lparr>mt_sampleRate = 48000, mt_peak = 0, mt_peakDb = - 96, mt_peakDecayCoeff = 0,
        mt_rms = 0, mt_rmsDb = - 96, mt_rmsSum = 0, mt_rmsCount = 0, mt_lufs = - 70,
        mt_lufsBuffer = replicate LUFS_WINDOW_SAMPLES 0, mt_lufsPos = 0\<rparr>"

fun mt_loop :: "real list \<Rightarrow> nat \<Rightarrow> real \<Rightarrow> real \<Rightarrow> real list \<Rightarrow> (real list \<times> nat \<times> real \<times> real) option" where
  \<comment> \<open>the sample loop of \<open>Metering::process\<close> on \<open>lufsBuffer_\<close>, \<open>lufsPos_\<close>,
     \<open>blockPeak\<close> and \<open>blockSum\<close>; \<open>None\<close>: \<open>lufsPos_\<close> outside the buffer\<close>
  "mt_loop lufsBuffer lufsPos blockPeak blockSum [] = Some (lufsBuffer, lufsPos, blockPeak, blockSum)"
| "mt_loop lufsBuffer lufsPos blockPeak blockSum (sample # rest) =
     (let absSample = \<bar>sample\<bar>;
          squared = sample * sample
      in if lufsPos < length lufsBuffer
         then mt_loop (lufsBuffer[lufsPos := squared]) ((lufsPos + 1) mod length lufsBuffer)
                (max blockPeak absSample) (blockSum + squared) rest
         else None)"

definition level_db :: "real \<Rightarrow> real" where
  \<comment> \<open>\<open>x > 1e-10f ? 20.0f * std::log10(x) : -96.0f\<close>\<close>
  "level_db x = (if x > 1 / 10 ^ 10 then 20 * log10 x else - 96)"

definition mt_process :: "metering \<Rightarrow> real list \<Rightarrow> metering option" where
  \<comment> \<open>\<open>Metering::process(buffer, frames)\<close> with \<open>frames = length buffer\<close>; the buffer is
     a pointer to \<open>const float\<close> and is only read\<close>
  "mt_process m buffer = do {
     (lufsBuffer, lufsPos, blockPeak, blockSum) \<leftarrow>
       mt_loop (mt_lufsBuffer m) (mt_lufsPos m) 0 0 buffer;
     let frames = length buffer;
     let peak = (if blockPeak > mt_peak m then blockPeak
                 else mt_peak m * mt_peakDecayCoeff m ^ frames);
     let rmsSum = mt_rmsSum m + blockSum;
     let rmsCount = mt_rmsCount m + frames;
     let m1 = m\<lparr>mt_lufsBuffer := lufsBuffer, mt_lufsPos := lufsPos, mt_peak := peak,
                mt_peakDb := level_db peak, mt_rmsSum := rmsSum, mt_rmsCount := rmsCount\<rparr>;
     let m2 = (if rmsCount \<ge> RMS_WINDOW_SAMPLES then
                 let rms = sqrt (rmsSum / real rmsCount)
                 in m1\<lparr>mt_rms := rms, mt_rmsDb := level_db rms, mt_rmsSum := blockSum,
                       mt_rmsCount := frames\<rparr>
               else m1);
     let lufsSum = foldl (+) 0 lufsBuffer;
     let loud = (case fdiv lufsSum (real (length lufsBuffer)) of
                   None \<Rightarrow> False
                 | Some meanSquare \<Rightarrow> meanSquare > 1 / 10 ^ 10);
     Some (m2\<lparr>mt_lufs := (if loud
                           then - 691 / 1000 + 10 * log10 (lufsSum / real (length lufsBuffer))
                           else - 70)\<rparr>)
   }"

section \<open>Engine (engine.cpp)\<close>

subsection \<open>Configuration (config/config_types.h)\<close>

record ExpanderConfig =
  xc_enabled :: bool
  xc_threshold :: real
  xc_ratio :: real
  xc_attack :: real
  xc_release :: real
  xc_hysteresis :: real

record CompressorConfig =
  cc_enabled :: bool
  cc_threshold :: real
  cc_ratio :: real
  cc_knee :: real
  cc_attack :: real
  cc_release :: real
  cc_makeupGain :: real

record LimiterConfig =
  lc_enabled :: bool
  lc_ceiling :: real
  lc_release :: real
  lc_lookahead :: real

record EqualizerConfig =
  qc_enabled :: bool
  qc_highPass_freq :: real
  qc_highPass_q :: real
  qc_lowShelf_freq :: real
  qc_lowShelf_gain :: real
  qc_presence_freq :: real
  qc_presence_gain :: real
  qc_presence_q :: real
  qc_highShelf_freq :: real
  qc_highShelf_gain :: real

record Config =
  cfg_aiModel :: string
  cfg_rnnoise_attenuation :: real
  cfg_expander :: ExpanderConfig
  cfg_compressor :: CompressorConfig
  cfg_limiter :: LimiterConfig
  cfg_equalizer :: EqualizerConfig

definition default_Config :: Config where
  \<comment> \<open>the configuration a \<open>ConfigManager\<close> holds after its constructor, which calls
     \<open>loadDefaults\<close> (config/config_manager.cpp); the device names, the DeepFilter
     settings, the de-esser settings and the preset name, which the modelled functions
     do not read, are left out\<close>
  "default_Config =
     \<lparr>cfg_aiModel = ''rnnoise'', cfg_rnnoise_attenuation = - 30,
      cfg_expander = \<lparr>xc_enabled = True, xc_threshold = - 40, xc_ratio = 2, xc_attack = 5,
                      xc_release = 100, xc_hysteresis = 3\<rparr>,
      cfg_compressor = \<lparr>cc_enabled = True, cc_threshold = - 18, cc_ratio = 4, cc_knee = 6,
                        cc_attack = 10, cc_release = 100, cc_makeupGain = 6\<rparr>,
      cfg_limiter = \<lparr>lc_enabled = True, lc_ceiling = - 1, lc_release = 50, lc_lookahead = 5\<rparr>,
      cfg_equalizer = \<lparr>qc_enabled = True, qc_highPass_freq = 80, qc_highPass_q = 7 / 10,
                       qc_lowShelf_freq = 200, qc_lowShelf_gain = 0, qc_presence_freq = 3000,
                       qc_presence_gain = 2, qc_presence_q = 1, qc_highShelf_freq = 8000,
                       qc_highShelf_gain = 1\<rparr>\<rparr>"

subsection \<open>State\<close>

record Status =
  st_capturing :: bool
  st_rendering :: bool
  st_inputLevel :: real
  st_outputLevel :: real
  st_gainReduction :: real
  st_cpuUsage :: real
  st_bufferUnderruns :: nat

text \<open>
  The WASAPI adapters, the pipe server and RNNoise are outside the pipeline. What they
  answer during \<open>initialize\<close> is a record of parameters; what the engine hands to them
  later is recorded in two instrumentation fields of the engine record:
  \<open>en_rendered\<close>, the samples passed to \<open>render_->write\<close>, and \<open>en_meterCalls\<close>, the
  arguments of the calls of the meter callback.
\<close>

record 'st adapters =
  ad_captureInit :: bool      \<comment> \<open>result of \<open>capture_->initialize\<close>\<close>
  ad_captureRate :: int       \<comment> \<open>\<open>capture_->getSampleRate()\<close>\<close>
  ad_renderDevice :: bool     \<comment> \<open>an output device is configured, or the search among
                                    the enumerated devices finds a virtual one\<close>
  ad_renderOpen :: bool       \<comment> \<open>result of \<open>render_->initialize\<close>\<close>
  ad_renderRate :: int        \<comment> \<open>\<open>render_->getSampleRate()\<close>\<close>
  ad_rnnoiseCreate :: "'st option"  \<comment> \<open>result of \<open>rnnoise_create\<close>\<close>
  ad_ipcStart :: bool         \<comment> \<open>result of \<open>pipeServer_->start()\<close>\<close>

record 'st engine =
  en_config :: Config
  en_inputResampler :: "resampler option"
  en_outputResampler :: "resampler option"
  en_rnnoise :: "'st rnnoise option"
  en_expander :: "expander option"
  en_compressor :: "compressor option"
  en_limiter :: "limiter option"
  en_equalizer :: "equalizer option"
  en_inputMetering :: "metering option"
  en_outputMetering :: "metering option"
  en_inputBuffer :: ring
  en_outputBuffer :: ring
  en_processingBuffer :: "real list"
  en_bypass :: bool
  en_meterCallback :: bool
  en_status :: Status
  en_rendered :: "real list"
  en_meterCalls :: "(real \<times> real \<times> real) list"

definition INTERNAL_SAMPLE_RATE :: int where
  "INTERNAL_SAMPLE_RATE = 48000"

definition INTERNAL_CHANNELS :: nat where
  "INTERNAL_CHANNELS = 1"

definition PROCESSING_BLOCK_SIZE :: nat where
  "PROCESSING_BLOCK_SIZE = 480"

definition BUFFER_SIZE :: nat where
  "BUFFER_SIZE = PROCESSING_BLOCK_SIZE * 16"

definition Engine :: "Config \<Rightarrow> 'st engine" where
  \<comment> \<open>the constructor; the configuration is the one the \<open>ConfigManager\<close> holds\<close>
  "Engine config =
     \<lparr>en_config = config, en_inputResampler = None, en_outputResampler = None,
      en_rnnoise = None, en_expander = None, en_compressor = None, en_limiter = None,
      en_equalizer = None, en_inputMetering = None, en_outputMetering = None,
      en_inputBuffer = LockFreeRingBuffer BUFFER_SIZE,
      en_outputBuffer = LockFreeRingBuffer BUFFER_SIZE,
      en_processingBuffer = replicate PROCESSING_BLOCK_SIZE 0,
      en_bypass = False, en_meterCallback = False,
      en_status = \<lparr>st_capturing = False, st_rendering = False, st_inputLevel = 0,
                    st_outputLevel = 0, st_gainReduction = 0, st_cpuUsage = 0,
                    st_bufferUnderruns = 0\<rparr>,
      en_rendered = [], en_meterCalls = []\<rparr>"

definition setBypass :: "bool \<Rightarrow> 'st engine \<Rightarrow> 'st engine" where
  "setBypass bypass e = e\<lparr>en_bypass := bypass\<rparr>"

subsection \<open>Initialisation\<close>

text \<open>
  Each function returns its boolean result, the engine and the lines it writes to
  \<open>std::cerr\<close>; the progress lines on \<open>std::cout\<close> are not modelled.
\<close>

definition initializeCapture :: "'st adapters \<Rightarrow> 'st engine \<Rightarrow> bool \<times> 'st engine \<times> string list" where
  "initializeCapture ad e =
     (if \<not> ad_captureInit ad then (False, e, [])
      else if ad_captureRate ad \<noteq> INTERNAL_SAMPLE_RATE
      then (True, e\<lparr>en_inputResampler :=
                      Some (rs_initialize (ad_captureRate ad) INTERNAL_SAMPLE_RATE INTERNAL_CHANNELS)\<rparr>, [])
      else (True, e, []))"

definition ad_renderInit :: "'st adapters \<Rightarrow> bool" where
  \<comment> \<open>a device was found and \<open>render_->initialize\<close> succeeded\<close>
  "ad_renderInit ad \<longleftrightarrow> ad_renderDevice ad \<and> ad_renderOpen ad"

definition initializeRender :: "'st adapters \<Rightarrow> 'st engine \<Rightarrow> bool \<times> 'st engine \<times> string list" where
  "initializeRender ad e =
     (if \<not> ad_renderDevice ad
      then (False, e, [''No virtual audio device found!'',
                       ''Please install VB-Cable from: https://vb-audio.com/Cable/''])
      else if \<not> ad_renderOpen ad then (False, e, [])
      else if ad_renderRate ad \<noteq> INTERNAL_SAMPLE_RATE
      then (True, e\<lparr>en_outputResampler :=
                      Some (rs_initialize INTERNAL_SAMPLE_RATE (ad_renderRate ad) INTERNAL_CHANNELS)\<rparr>, [])
      else (True, e, []))"

definition configured_expander :: "ExpanderConfig \<Rightarrow> expander" where
  "configured_expander c =
     exp_setHysteresis (xc_hysteresis c) (exp_setRelease (xc_release c)
       (exp_setAttack (xc_attack c) (exp_setRatio (xc_ratio c)
         (exp_setThreshold (xc_threshold c) (Expander\<lparr>exp_enabled := xc_enabled c\<rparr>)))))"

definition configured_compressor :: "CompressorConfig \<Rightarrow> compressor" where
  "configured_compressor c =
     cmp_setMakeupGain (cc_makeupGain c) (cmp_setRelease (cc_release c)
       (cmp_setAttack (cc_attack c) (cmp_setKnee (cc_knee c) (cmp_setRatio (cc_ratio c)
         (cmp_setThreshold (cc_threshold c) (Compressor\<lparr>cmp_enabled := cc_enabled c\<rparr>))))))"

definition configured_limiter :: "LimiterConfig \<Rightarrow> limiter" where
  "configured_limiter c =
     setLookahead (lc_lookahead c) (lim_setRelease (lc_release c)
       (setCeiling (lc_ceiling c) (Limiter\<lparr>lim_enabled := lc_enabled c\<rparr>)))"

definition configured_equalizer :: "EqualizerConfig \<Rightarrow> equalizer" where
  "configured_equalizer c =
     eq_setHighShelf (qc_highShelf_freq c) (qc_highShelf_gain c)
       (eq_setPresence (qc_presence_freq c) (qc_presence_gain c) (qc_presence_q c)
         (eq_setLowShelf (qc_lowShelf_freq c) (qc_lowShelf_gain c)
           (eq_setHighPass (qc_highPass_freq c) (qc_highPass_q c)
             (Equalizer\<lparr>eq_enabled := qc_enabled c\<rparr>))))"

definition initializeProcessors :: "'st adapters \<Rightarrow> 'st engine \<Rightarrow> bool \<times> 'st engine \<times> string list" where
  "initializeProcessors ad e =
     (let config = en_config e;
          (ok, rn, log) = rn_initialize (ad_rnnoiseCreate ad) RNNoiseProcessor;
          e1 = e\<lparr>en_rnnoise := Some rn\<rparr>
      in if \<not> ok then (False, e1, log @ [''Failed to initialize RNNoise''])
         else
           (True,
            e1\<lparr>en_rnnoise := Some (setAttenuation (cfg_rnnoise_attenuation config) rn),
               en_expander := Some (configured_expander (cfg_expander config)),
               en_compressor := Some (configured_compressor (cfg_compressor config)),
               en_limiter := Some (configured_limiter (cfg_limiter config)),
               en_equalizer := Some (configured_equalizer (cfg_equalizer config)),
               en_inputMetering := Some Metering, en_outputMetering := Some Metering\<rparr>,
            log))"

definition initialize :: "'st adapters \<Rightarrow> 'st engine \<Rightarrow> bool \<times> 'st engine \<times> string list" where
  \<comment> \<open>\<open>Engine::initialize\<close>\<close>
  "initialize ad e =
     (let (ok1, e1, log1) = initializeCapture ad e in
      if \<not> ok1 then (False, e1, log1 @ [''Failed to initialize audio capture''])
      else
        let (ok2, e2, log2) = initializeRender ad e1 in
        if \<not> ok2 then (False, e2, log1 @ log2 @ [''Failed to initialize audio render''])
        else
          let (ok3, e3, log3) = initializeProcessors ad e2 in
          if \<not> ok3
          then (False, e3, log1 @ log2 @ log3 @ [''Failed to initialize audio processors''])
          else if \<not> ad_ipcStart ad
          then (True, e3, log1 @ log2 @ log3 @ [''Warning: Failed to initialize IPC server''])
          else (True, e3, log1 @ log2 @ log3))"

subsection \<open>Capture callback\<close>

definition downmix :: "real list \<Rightarrow> nat \<Rightarrow> int \<Rightarrow> real list option" where
  \<comment> \<open>"Convert to mono if stereo"; \<open>None\<close>: a read outside the callback's buffer\<close>
  "downmix buffer frames channels =
     (if channels = 2
      then those (map (\<lambda>i. do {
             l \<leftarrow> rd buffer (i * 2);
             r \<leftarrow> rd buffer (i * 2 + 1);
             Some ((l + r) * (1 / 2))
           }) [0..<frames])
      else vread buffer 0 frames)"

definition capture_convert :: "'st engine \<Rightarrow> real list \<Rightarrow> nat \<Rightarrow> int \<Rightarrow> ('st engine \<times> real list) option" where
  \<comment> \<open>\<open>onAudioCaptured\<close> up to the write: the engine and \<open>audioData\<close> with its
     \<open>audioFrames\<close> samples\<close>
  "capture_convert e buffer frames channels = do {
     monoBuffer \<leftarrow> downmix buffer frames channels;
     (case en_inputResampler e of
        None \<Rightarrow> Some (e, monoBuffer)
      | Some r \<Rightarrow> do {
          (r1, resampledBuffer) \<leftarrow> rs_process r monoBuffer frames;
          Some (e\<lparr>en_inputResampler := Some r1\<rparr>, resampledBuffer)
        })
   }"

definition onAudioCaptured :: "'st engine \<Rightarrow> real list \<Rightarrow> nat \<Rightarrow> int \<Rightarrow> int \<Rightarrow> 'st engine option" where
  \<comment> \<open>\<open>Engine::onAudioCaptured\<close>; the count returned by \<open>write\<close> is dropped, as in the
     source. The notification of the processing thread is not modelled\<close>
  "onAudioCaptured e buffer frames sampleRate channels = do {
     (e1, audioData) \<leftarrow> capture_convert e buffer frames channels;
     (rb, written) \<leftarrow> rb_write (en_inputBuffer e1) audioData;
     Some (e1\<lparr>en_inputBuffer := rb\<rparr>)
   }"

subsection \<open>Processing\<close>

definition meter :: "metering option \<Rightarrow> real list \<Rightarrow> metering option option" where
  \<comment> \<open>\<open>if (m) m->process(buffer, frames)\<close>\<close>
  "meter m buffer =
     (case m of None \<Rightarrow> Some None | Some m0 \<Rightarrow> map_option Some (mt_process m0 buffer))"

definition rms_or_zero :: "metering option \<Rightarrow> real" where
  \<comment> \<open>\<open>m ? m->getRMS() : 0.0f\<close>\<close>
  "rms_or_zero m = (case m of None \<Rightarrow> 0 | Some m0 \<Rightarrow> mt_rmsDb m0)"

definition gr_or_zero :: "compressor option \<Rightarrow> real" where
  \<comment> \<open>\<open>compressor_ ? compressor_->getGainReduction() : 0.0f\<close>\<close>
  "gr_or_zero c = (case c of None \<Rightarrow> 0 | Some c0 \<Rightarrow> cmp_gainReductionDb c0)"

definition processAudioBlock :: "'st inference \<Rightarrow> 'st engine \<Rightarrow> real list \<Rightarrow> ('st engine \<times> real list) option" where
  \<comment> \<open>\<open>Engine::processAudioBlock(buffer, frames)\<close> with \<open>frames = length buffer\<close>: the
     engine and the buffer as the call leaves it\<close>
  "processAudioBlock infer e buffer = do {
     im \<leftarrow> meter (en_inputMetering e) buffer;
     let e0 = e\<lparr>en_inputMetering := im\<rparr>;
     if en_bypass e0 then do {
       om \<leftarrow> meter (en_outputMetering e0) buffer;
       Some (e0\<lparr>en_outputMetering := om\<rparr>, buffer)
     }
     else do {
       (rn, b1) \<leftarrow>
         (case en_rnnoise e0 of
            Some p \<Rightarrow>
              if cfg_aiModel (en_config e0) = ''rnnoise''
              then map_option (\<lambda>(p1, b). (Some p1, b)) (rn_process infer p buffer)
              else Some (Some p, buffer)
          | None \<Rightarrow> Some (None, buffer));
       let (ex, b2) =
         (case en_expander e0 of
            Some x \<Rightarrow> if exp_enabled x then (let (x1, b) = exp_process x b1 in (Some x1, b))
                      else (Some x, b1)
          | None \<Rightarrow> (None, b1));
       (eq, b3) \<leftarrow>
         (case en_equalizer e0 of
            Some q \<Rightarrow> if eq_enabled q then map_option (\<lambda>(q1, b). (Some q1, b)) (eq_process q b2)
                      else Some (Some q, b2)
          | None \<Rightarrow> Some (None, b2));
       (cm, b4) \<leftarrow>
         (case en_compressor e0 of
            Some c \<Rightarrow> if cmp_enabled c then map_option (\<lambda>(c1, b). (Some c1, b)) (cmp_process c b3)
                      else Some (Some c, b3)
          | None \<Rightarrow> Some (None, b3));
       (lm, b5) \<leftarrow>
         (case en_limiter e0 of
            Some l \<Rightarrow> if lim_enabled l then map_option (\<lambda>(l1, b). (Some l1, b)) (lim_process l b4)
                      else Some (Some l, b4)
          | None \<Rightarrow> Some (None, b4));
       om \<leftarrow> meter (en_outputMetering e0) b5;
       calls \<leftarrow>
         (if en_meterCallback e0 then
            (case om of
               None \<Rightarrow> None
             | Some m \<Rightarrow> Some (en_meterCalls e0 @ [(mt_peakDb m, mt_rmsDb m, gr_or_zero cm)]))
          else Some (en_meterCalls e0));
       Some (e0\<lparr>en_rnnoise := rn, en_expander := ex, en_equalizer := eq, en_compressor := cm,
                en_limiter := lm, en_outputMetering := om, en_meterCalls := calls,
                en_status := (en_status e0)\<lparr>st_inputLevel := rms_or_zero im,
                                              st_outputLevel := rms_or_zero om,
                                              st_gainReduction := gr_or_zero cm\<rparr>\<rparr>,
             b5)
     }
   }"

definition processBlock :: "'st inference \<Rightarrow> bool \<Rightarrow> 'st engine \<Rightarrow> 'st engine option" where
  \<comment> \<open>one iteration of "Process available blocks" in \<open>Engine::processingThread\<close>; the
     boolean is \<open>render_ && render_->isReady()\<close>\<close>
  "processBlock infer renderReady e =
     (if availableRead (en_inputBuffer e) \<ge> PROCESSING_BLOCK_SIZE then do {
        (rb, block) \<leftarrow> rb_read (en_inputBuffer e) PROCESSING_BLOCK_SIZE;
        pb \<leftarrow> vcopy block (en_processingBuffer e) 0;
        input \<leftarrow> vread pb 0 PROCESSING_BLOCK_SIZE;
        (e1, out) \<leftarrow> processAudioBlock infer (e\<lparr>en_inputBuffer := rb\<rparr>) input;
        pb1 \<leftarrow> vcopy out pb 0;
        samples \<leftarrow> vread pb1 0 PROCESSING_BLOCK_SIZE;
        (ob, written) \<leftarrow> rb_write (en_outputBuffer e1) samples;
        let e2 = e1\<lparr>en_outputBuffer := ob, en_processingBuffer := pb1\<rparr>;
        if renderReady then
          (case en_outputResampler e2 of
             Some r \<Rightarrow> do {
               (r1, renderBuffer) \<leftarrow> rs_process r samples PROCESSING_BLOCK_SIZE;
               Some (e2\<lparr>en_outputResampler := Some r1,
                        en_rendered := en_rendered e2 @ renderBuffer\<rparr>)
             }
           | None \<Rightarrow> Some (e2\<lparr>en_rendered := en_rendered e2 @ samples\<rparr>))
        else Some e2
      }
      else Some e)"

fun run_callbacks :: "'st engine \<Rightarrow> (real list \<times> nat \<times> int \<times> int) list \<Rightarrow> 'st engine option" where
  \<comment> \<open>a sequence of capture callbacks \<open>(buffer, frames, sampleRate, channels)\<close>\<close>
  "run_callbacks e [] = Some e"
| "run_callbacks e ((buffer, frames, sampleRate, channels) # cbs) =
     (case onAudioCaptured e buffer frames sampleRate channels of
        None \<Rightarrow> None
      | Some e1 \<Rightarrow> run_callbacks e1 cbs)"

definition mt_ok :: "metering option \<Rightarrow> bool" where
  \<comment> \<open>a meter, when present, has its write position inside its LUFS window, as the
     constructor and \<open>process\<close> leave it\<close>
  "mt_ok m = (case m of None \<Rightarrow> True | Some m0 \<Rightarrow> mt_lufsPos m0 < length (mt_lufsBuffer m0))"

partial_function (option) processAvailable :: "'st inference \<Rightarrow> bool \<Rightarrow> 'st engine \<Rightarrow> 'st engine option" where
  \<comment> \<open>"Process available blocks": \<open>while (inputBuffer_.availableRead() >=
     PROCESSING_BLOCK_SIZE)\<close> of \<open>Engine::processingThread\<close>\<close>
  "processAvailable infer renderReady e =
     (if availableRead (en_inputBuffer e) \<ge> PROCESSING_BLOCK_SIZE
      then do {
        e1 \<leftarrow> processBlock infer renderReady e;
        processAvailable infer renderReady e1
      }
      else Some e)"

fun pipeline :: "'st inference \<Rightarrow> bool \<Rightarrow> 'st engine \<Rightarrow> (real list \<times> nat \<times> int \<times> int) list \<Rightarrow> 'st engine option" where
  \<comment> \<open>the capture thread and the processing thread on a sequence of capture callbacks,
     in the schedule in which the processing thread, notified by each callback, runs its
     loop over the available blocks before the next callback\<close>
  "pipeline infer renderReady e [] = Some e"
| "pipeline infer renderReady e ((buffer, frames, sampleRate, channels) # cbs) = do {
     e1 \<leftarrow> onAudioCaptured e buffer frames sampleRate channels;
     e2 \<leftarrow> processAvailable infer renderReady e1;
     pipeline infer renderReady e2 cbs
   }"

definition whole_blocks :: "'a list \<Rightarrow> 'a list" where
  \<comment> \<open>the longest prefix of a stream that is made of whole processing blocks\<close>
  "whole_blocks s = take (PROCESSING_BLOCK_SIZE * (length s div PROCESSING_BLOCK_SIZE)) s"

definition bypass_ready :: "'st engine \<Rightarrow> bool" where
  \<comment> \<open>an engine with bypass on and no resampler, whose rings, meters and processing
     buffer are as the constructors and the processing loop leave them\<close>
  "bypass_ready e \<longleftrightarrow>
     en_bypass e \<and> mt_ok (en_inputMetering e) \<and> mt_ok (en_outputMetering e) \<and>
     rb_inv (en_inputBuffer e) \<and> rb_inv (en_outputBuffer e) \<and>
     length (en_processingBuffer e) = PROCESSING_BLOCK_SIZE \<and>
     en_inputResampler e = None \<and> en_outputResampler e = None"

definition lim_view :: "limiter \<Rightarrow> real \<times> real \<times> nat \<times> real list \<times> nat \<times> real" where
  \<comment> \<open>the members that decide the samples a limiter produces: ceiling, release
     coefficient, lookahead length, lookahead buffer, buffer position, smoothed gain\<close>
  "lim_view l =
     (lim_ceiling l, lim_releaseCoeff l, lim_lookaheadSamples l, lim_lookaheadBuffer l,
      lim_bufferPos l, lim_smoothedGain l)"

section \<open>Properties of the rounding\<close>

lemma rne_of_int: "rne (of_int m) = m"
  by (simp add: rne_def)

lemma fl_round_exact:
  assumes "x \<noteq> 0" and "2 powr of_int k \<le> \<bar>x\<bar>" and "\<bar>x\<bar> < 2 powr (of_int k + 1)"
    and "x = of_int m * 2 powr (of_int k - (real p - 1))"
  shows "fl_round p x = x"
proof -
  have "0 < \<bar>x\<bar>" using assms(1) by simp
  then have e: "\<lfloor>log 2 \<bar>x\<bar>\<rfloor> = k"
    using assms(2,3) by (simp add: floor_log_eq_powr_iff)
  have d: "x / 2 powr (of_int k - (real p - 1)) = of_int m"
    using assms(4) by simp
  have "fl_round p x =
        of_int (rne (x / 2 powr (of_int k - (real p - 1)))) * 2 powr (of_int k - (real p - 1))"
    using assms(1) by (simp only: fl_round_def e Let_def if_False)
  also have "\<dots> = of_int m * 2 powr (of_int k - (real p - 1))"
    by (simp only: d rne_of_int)
  finally show ?thesis by (simp only: assms(4))
qed

lemma fl32_240000: "fl32 240000 = 240000"
  unfolding fl32_def
  by (rule fl_round_exact [where k = 17 and m = 15360000]) (simp_all add: powr_minus)

lemma fl32_240: "fl32 240 = 240"
  unfolding fl32_def
  by (rule fl_round_exact [where k = 7 and m = 15728640]) (simp_all add: powr_minus)

lemma fl32_750: "fl32 750 = 750"
  unfolding fl32_def
  by (rule fl_round_exact [where k = 9 and m = 12288000]) (simp_all add: powr_minus)

lemma fl32_three_quarters: "fl32 (3 / 4) = 3 / 4"
  unfolding fl32_def
  by (rule fl_round_exact [where k = "- 1" and m = 12582912]) (simp_all add: powr_minus)

lemma setLookahead_samples:
  "lim_lookaheadSamples (setLookahead ms l) =
     nat \<lfloor>fl32 (fl32 (clampf ms 0 10 * lim_sampleRate l) / 1000)\<rfloor>"
  by (simp add: setLookahead_def Let_def)

lemma fl_round_at:
  fixes x :: real
  assumes "2 powr of_int k \<le> \<bar>x\<bar>" and "\<bar>x\<bar> < 2 powr (of_int k + 1)"
  shows "fl_round p x =
         of_int (rne (x / 2 powr (of_int k - (real p - 1)))) * 2 powr (of_int k - (real p - 1))"
proof -
  have "0 < (2::real) powr of_int k" by simp
  then have pos: "0 < \<bar>x\<bar>" using assms(1) by linarith
  then have e: "\<lfloor>log 2 \<bar>x\<bar>\<rfloor> = k"
    using assms by (simp add: floor_log_eq_powr_iff)
  have "x \<noteq> 0" using pos by simp
  then show ?thesis by (simp only: fl_round_def e Let_def if_False)
qed

lemma fl32_5: "fl32 5 = 5"
  unfolding fl32_def
  by (rule fl_round_exact [where k = 2 and m = 10485760]) (simp_all add: powr_minus)

lemma fl32_product: "fl32 (13981013 / 134217728 * 48000) = 5000"
proof -
  have "fl32 (13981013 / 134217728 * 48000) =
        of_int (rne (13981013 / 134217728 * 48000 / 2 powr (of_int 12 - (real 24 - 1)))) *
          2 powr (of_int 12 - (real 24 - 1))"
    unfolding fl32_def by (rule fl_round_at) simp_all
  also have "13981013 / 134217728 * 48000 / 2 powr (of_int 12 - (real 24 - 1)) =
             (671088624000 / 65536 :: real)"
    by (simp add: powr_minus)
  also have "rne (671088624000 / 65536) = 10240000"
    by (simp add: rne_def Let_def)
  finally show ?thesis by (simp add: powr_minus)
qed

text \<open>
  The rounding of the product decides the lookahead length: for
  \<open>lookahead_ms = 13981013 / 134217728\<close>, the \<open>float\<close> \<open>0x1.aaaaaap-4\<close>, the exact
  quotient is below 5 and the quotient computed in \<open>float\<close> is 5.
\<close>

lemma setLookahead_float_product:
  "lim_lookaheadSamples (setLookahead (13981013 / 134217728) lim_fields) = 5 \<and>
   nat \<lfloor>13981013 / 134217728 * 48000 / 1000 :: real\<rfloor> = 4"
proof -
  have c: "clampf (13981013 / 134217728) 0 10 = 13981013 / 134217728" by (simp add: clampf_def)
  have r: "lim_sampleRate lim_fields = 48000" by (simp add: lim_fields_def)
  have "lim_lookaheadSamples (setLookahead (13981013 / 134217728) lim_fields) =
        nat \<lfloor>fl32 (5000 / 1000)\<rfloor>"
    by (simp only: setLookahead_samples c r fl32_product)
  also have "\<dots> = 5" by (simp add: fl32_5)
  finally show ?thesis by simp
qed

section \<open>Properties of the compressor\<close>

lemma computeGainDb_hard_knee_at_threshold:
  "cmp_kneeDb c = 0 \<Longrightarrow> computeGainDb c (cmp_thresholdDb c) = None"
  by (simp add: computeGainDb_def fdiv_def Let_def)

lemma hard_knee_fields:
  "cmp_enabled (cmp_setKnee 0 (cmp_setThreshold 0 Compressor))"
  "cmp_kneeDb (cmp_setKnee 0 (cmp_setThreshold 0 Compressor)) = 0"
  "cmp_thresholdDb (cmp_setKnee 0 (cmp_setThreshold 0 Compressor)) = 0"
  "cmp_envelope (cmp_setKnee 0 (cmp_setThreshold 0 Compressor)) = 0"
  "cmp_attackCoeff (cmp_setKnee 0 (cmp_setThreshold 0 Compressor)) = exp (- 1 / 480)"
  by (simp_all add: Compressor_def cmp_fields_def cmp_setKnee_def cmp_setThreshold_def
      cmp_setRatio_def cmp_setAttack_def cmp_setRelease_def cmp_setMakeupGain_def clampf_def
      coeff_ms_def)

lemma hard_knee_process:
  "cmp_process (cmp_setKnee 0 (cmp_setThreshold 0 Compressor))
     [1 / (1 - cmp_attackCoeff (cmp_setKnee 0 (cmp_setThreshold 0 Compressor)))] = None"
proof -
  define C where "C = cmp_setKnee 0 (cmp_setThreshold 0 Compressor)"
  define a where "a = cmp_attackCoeff C"
  define x where "x = 1 / (1 - a)"
  note f = hard_knee_fields [folded C_def]
  have a1: "a < 1" "0 < a" by (simp_all add: a_def f)
  then have x1: "1 \<le> x" by (simp add: x_def)
  then have lvl: "\<not> \<bar>x\<bar> < 1 / 10 ^ 10" "\<bar>x\<bar> > 0" "\<bar>x\<bar> = x" by simp_all
  have env: "a * 0 + (1 - a) * x = 1" using a1 by (simp add: x_def)
  have k: "computeGainDb (C\<lparr>cmp_envelope := 1\<rparr>) (20 * log10 1) = None"
    by (simp add: computeGainDb_def fdiv_def Let_def f log10_def)
  have "cmp_sample C x = None"
    using lvl(1) lvl(2) k
    by (simp add: f(2-4) a_def [symmetric] lvl(3) env [simplified] Let_def)
  then show ?thesis
    unfolding C_def [symmetric] a_def [symmetric] x_def [symmetric]
    by (simp add: cmp_process_def f(1))
qed

text \<open>
  C10. The gain computation is claimed finite for every admitted setting, knee width 0
  included. With the constructor's settings and \<open>setKnee(0)\<close> (admitted by the setter,
  documented as the hard knee) an input level equal to the threshold, -18 dB, reaches
  the knee branch, which divides by \<open>2 * kneeWidth = 0\<close>: the returned gain is not
  finite. \<open>process\<close> reaches that case: with threshold 0 dB and knee 0, a first sample
  of \<open>1 / (1 - attackCoeff)\<close> brings the envelope to 1, that is 0 dB, and the call
  produces a gain that is not finite.
\<close>

theorem C10_knee_zero_non_finite:
  "cmp_kneeDb (cmp_setKnee 0 Compressor) = 0 \<and>
   computeGainDb (cmp_setKnee 0 Compressor) (- 18) = None \<and>
   cmp_process (cmp_setKnee 0 (cmp_setThreshold 0 Compressor))
     [1 / (1 - cmp_attackCoeff (cmp_setKnee 0 (cmp_setThreshold 0 Compressor)))] = None"
proof -
  have "cmp_kneeDb (cmp_setKnee 0 Compressor) = 0"
    by (simp add: cmp_setKnee_def clampf_def)
  moreover have "computeGainDb (cmp_setKnee 0 Compressor) (- 18) = None"
    by (simp add: computeGainDb_def fdiv_def Let_def Compressor_def cmp_fields_def
        cmp_setKnee_def cmp_setThreshold_def cmp_setRatio_def cmp_setAttack_def
        cmp_setRelease_def cmp_setMakeupGain_def clampf_def)
  ultimately show ?thesis using hard_knee_process by simp
qed

section \<open>Properties of the expander\<close>

lemma log10_thousandth: "log10 (1 / 1000) = - 3"
proof -
  have "log 10 (1000::real) = log 10 (10 ^ 3)" by simp
  also have "\<dots> = 3" by (simp only: log_pow_cancel)
  finally show ?thesis by (simp add: log10_def log_divide)
qed

lemma log10_pow10: "log10 (pow10 y) = y"
  by (simp add: log10_def pow10_def)

lemma Expander_params: "exp_threshold Expander = pow10 (- 2)" "exp_ratio Expander = 2"
  by (simp_all add: Expander_def exp_fields_def exp_setThreshold_def exp_setRatio_def
      exp_setAttack_def exp_setRelease_def exp_setHysteresis_def clampf_def)

lemma computeGain_below_threshold:
  assumes "1 / 10 ^ 10 \<le> env" and "20 * log10 env < 20 * log10 (exp_threshold e)"
  shows "exp_gainReductionDb (fst (computeGain e env)) =
         - ((20 * log10 (exp_threshold e) - 20 * log10 env) * (exp_ratio e - 1))"
  using assms by (simp add: computeGain_def Let_def)

lemma Expander_state:
  "exp_enabled Expander" "exp_envelope Expander = 0" "\<not> exp_gateOpen Expander"
  "exp_attackCoeff Expander = exp (- 1 / 240)"
  by (simp_all add: Expander_def exp_fields_def exp_setThreshold_def exp_setRatio_def
      exp_setAttack_def exp_setRelease_def exp_setHysteresis_def clampf_def coeff_ms_def)

lemma pow10_minus2: "pow10 (- 2) = 1 / 100"
proof -
  have "(10::real) powr (- 2) = 1 / 10 powr 2" by (simp only: powr_minus_divide)
  also have "(10::real) powr 2 = 10 ^ 2" by (simp only: powr_numeral) 
  finally show ?thesis by (simp add: pow10_def)
qed

lemma exp_loop_single: "fst (exp_loop e [x]) = fst (exp_sample e x)"
  by (simp del: exp_sample.simps split: prod.splits)

lemma Expander_process_negative:
  "exp_gainReductionDb (fst (exp_process Expander [1 / 1000 / (1 - exp_attackCoeff Expander)])) = - 20"
proof -
  define a where "a = exp_attackCoeff Expander"
  define x where "x = 1 / 1000 / (1 - a)"
  have a1: "a < 1" "0 < a" by (simp_all add: a_def Expander_state)
  then have x0: "0 < x" by (simp add: x_def)
  have env: "(1 - a) * x = 1 / 1000" using a1 by (simp add: x_def)
  have g: "exp_gainReductionDb (fst (computeGain (Expander\<lparr>exp_envelope := 1 / 1000, exp_gateOpen := False\<rparr>) (1 / 1000))) = - 20"
    by (simp add: computeGain_def Expander_params log10_thousandth log10_pow10 Let_def)
  have "exp_gainReductionDb (fst (exp_sample Expander x)) = - 20"
    using x0 g
    by (auto simp: Expander_state(2,3) a_def [symmetric] env Expander_params pow10_minus2 Let_def
        split: prod.splits)
  then show ?thesis
    unfolding a_def [symmetric] x_def [symmetric]
    by (simp only: exp_process_def Expander_state(1) exp_loop_single not_True_eq_False if_False)
qed

text \<open>
  C8. The exposed gain reduction is claimed non-negative and equal to
  \<open>(threshold_dB - env_dB) * (ratio - 1)\<close> below the threshold. For the constructor's
  expander (threshold -40 dB, ratio 2) and an envelope of 0.001 (-60 dB) that value
  is +20 dB; \<open>computeGain\<close> stores its negation, -20 dB. \<open>process\<close> leaves that value
  behind after a first sample of \<open>0.001 / (1 - attackCoeff)\<close>, which brings the
  envelope to 0.001.
\<close>

theorem C8_gain_reduction_negative:
  "exp_gainReductionDb (fst (computeGain Expander (1 / 1000))) = - 20 \<and>
   exp_gainReductionDb
     (fst (exp_process Expander [1 / 1000 / (1 - exp_attackCoeff Expander)])) = - 20"
proof -
  have "exp_gainReductionDb (fst (computeGain Expander (1 / 1000))) = - 20"
    by (simp add: computeGain_def Expander_params log10_thousandth log10_pow10 Let_def)
  with Expander_process_negative show ?thesis by simp
qed

section \<open>Properties of the RNNoise processor\<close>

declare rn_loop.simps [simp del] complete_frames.simps [simp del]

lemma FRAME_SIZE_pos: "0 < FRAME_SIZE" by (simp add: FRAME_SIZE_def)

lemma complete_frames_short: "length r < FRAME_SIZE \<Longrightarrow> complete_frames r = []"
  by (simp add: complete_frames.simps)

lemma complete_frames_concat:
  "list_all (\<lambda>f. length f = FRAME_SIZE) fs \<Longrightarrow> length r < FRAME_SIZE \<Longrightarrow>
   complete_frames (concat fs @ r) = fs"
proof (induction fs)
  case Nil
  then show ?case by (simp add: complete_frames_short)
next
  case (Cons f fs)
  then have "complete_frames (f @ (concat fs @ r)) = f # complete_frames (concat fs @ r)"
    by (subst complete_frames.simps) simp
  with Cons show ?case by simp
qed

lemma vcopy_Some:
  "pos + length src \<le> length dst \<Longrightarrow>
   vcopy src dst pos = Some (take pos dst @ src @ drop (pos + length src) dst)"
  by (simp add: vcopy_def)

lemma complete_frames_map:
  "complete_frames (map f xs) = map (map f) (complete_frames xs)"
proof (induction xs rule: complete_frames.induct)
  case (1 xs)
  show ?case
  proof (cases "length xs < FRAME_SIZE")
    case True
    then show ?thesis by (simp add: complete_frames_short)
  next
    case False
    have "complete_frames (map f xs) =
          take FRAME_SIZE (map f xs) # complete_frames (drop FRAME_SIZE (map f xs))"
      using False by (subst complete_frames.simps) simp
    also have "\<dots> = map f (take FRAME_SIZE xs) # map (map f) (complete_frames (drop FRAME_SIZE xs))"
      using "1.IH" [OF False] by (simp add: take_map drop_map)
    also have "\<dots> = map (map f) (complete_frames xs)"
      using False by (subst (2) complete_frames.simps) simp
    finally show ?thesis .
  qed
qed

lemma complete_frames_lengths: "list_all (\<lambda>f. length f = FRAME_SIZE) (complete_frames xs)"
proof (induction xs rule: complete_frames.induct)
  case (1 xs)
  show ?case
  proof (cases "length xs < FRAME_SIZE")
    case True
    then show ?thesis by (simp add: complete_frames_short)
  next
    case False
    with "1.IH" [OF False] show ?thesis by (subst complete_frames.simps) simp
  qed
qed

lemma seen_frames_fields [simp]:
  "seen_frames (p\<lparr>rn_frameBuffer := fb\<rparr>) = seen_frames p"
  "seen_frames (p\<lparr>rn_bufferPos := n\<rparr>) = seen_frames p"
  "seen_frames (p\<lparr>rn_outputBuffer := ob\<rparr>) = seen_frames p"
  "seen_frames (p\<lparr>rn_outputPos := m\<rparr>) = seen_frames p"
  by (simp_all add: seen_frames_def)

lemma scaled_frame:
  "length fb = FRAME_SIZE \<Longrightarrow>
   map (\<lambda>i. fb ! i * 32767) [0..<FRAME_SIZE] = map (\<lambda>x. x * (32767::real)) fb"
  by (rule nth_equalityI) simp_all

lemma fill_frame_inv:
  assumes inv: "rn_inv p xs" and lt: "inputPos < length buffer"
  defines "n \<equiv> min (length buffer - inputPos) (FRAME_SIZE - rn_bufferPos p)"
  defines "src \<equiv> take n (drop inputPos buffer)"
  defines "fb \<equiv> take (rn_bufferPos p) (rn_frameBuffer p) @ src @ drop (rn_bufferPos p + n) (rn_frameBuffer p)"
  shows "fill_frame p buffer inputPos =
           Some (p\<lparr>rn_frameBuffer := fb, rn_bufferPos := rn_bufferPos p + n\<rparr>, inputPos + n)"
    and "0 < n" and "inputPos + n \<le> length buffer" and "rn_bufferPos p + n \<le> FRAME_SIZE"
    and "length fb = FRAME_SIZE"
    and "concat (seen_frames p) @ map (\<lambda>x. x * 32767) (take (rn_bufferPos p + n) fb) =
         map (\<lambda>x. x * 32767) (xs @ src)"
proof -
  from inv have pos: "rn_bufferPos p < FRAME_SIZE" and len: "length (rn_frameBuffer p) = FRAME_SIZE"
    and xs: "concat (seen_frames p) @
               map (\<lambda>x. x * 32767) (take (rn_bufferPos p) (rn_frameBuffer p)) =
             map (\<lambda>x. x * 32767) xs"
    by (simp_all add: rn_inv_def)
  show n0: "0 < n" and nb: "inputPos + n \<le> length buffer" and nf: "rn_bufferPos p + n \<le> FRAME_SIZE"
    using pos lt by (simp_all add: n_def)
  have ls: "length src = n" using nb by (simp add: src_def)
  have "vcopy src (rn_frameBuffer p) (rn_bufferPos p) = Some fb"
    using nf len ls by (simp add: vcopy_Some fb_def)
  then show "fill_frame p buffer inputPos =
           Some (p\<lparr>rn_frameBuffer := fb, rn_bufferPos := rn_bufferPos p + n\<rparr>, inputPos + n)"
    using pos by (simp add: fill_frame_def Let_def n_def [symmetric] src_def [symmetric])
  show "length fb = FRAME_SIZE" using nf len ls pos by (simp add: fb_def)
  have "take (rn_bufferPos p + n) fb = take (rn_bufferPos p) (rn_frameBuffer p) @ src"
    using len pos ls by (simp add: fb_def)
  then have "concat (seen_frames p) @ map (\<lambda>x. x * 32767) (take (rn_bufferPos p + n) fb) =
             (concat (seen_frames p) @
                map (\<lambda>x. x * 32767) (take (rn_bufferPos p) (rn_frameBuffer p))) @
             map (\<lambda>x. x * 32767) src"
    by simp
  then show "concat (seen_frames p) @ map (\<lambda>x. x * 32767) (take (rn_bufferPos p + n) fb) =
             map (\<lambda>x. x * 32767) (xs @ src)"
    by (simp only: xs map_append)
qed

text \<open>
  The one call of the inference step in \<open>processFrame\<close>: its argument is the whole
  frame buffer, every sample multiplied by 32767.
\<close>

lemma processFrame_inv:
  assumes "rn_state p \<noteq> None" "length (rn_frameBuffer p) = FRAME_SIZE"
  shows "\<exists>p2. processFrame (recording infer) p = Some p2 \<and> rn_state p2 \<noteq> None \<and>
       length (rn_frameBuffer p2) = FRAME_SIZE \<and> rn_bufferPos p2 = rn_bufferPos p \<and>
       rn_outputBuffer p2 = rn_outputBuffer p \<and> rn_outputPos p2 = rn_outputPos p \<and>
       seen_frames p2 = seen_frames p @ [map (\<lambda>x. x * 32767) (rn_frameBuffer p)]"
proof -
  from assms(1) obtain st seen where st: "rn_state p = Some (st, seen)" by auto
  obtain st1 vad out
    where i: "infer st (map (\<lambda>x. x * 32767) (rn_frameBuffer p)) = (st1, vad, out)"
    by (cases "infer st (map (\<lambda>x. x * 32767) (rn_frameBuffer p))") auto
  show ?thesis
    using assms(2) st i
    by (simp add: processFrame_def recording_def seen_frames_def Let_def scaled_frame)
qed

lemma store_output_inv:
  assumes "length (rn_frameBuffer p) = FRAME_SIZE" "length (rn_outputBuffer p) = FRAME_SIZE * 4"
    "rn_outputPos p < FRAME_SIZE * 4"
  shows "\<exists>p3. store_output p = Some p3 \<and> rn_state p3 = rn_state p \<and>
       rn_frameBuffer p3 = rn_frameBuffer p \<and> rn_bufferPos p3 = 0 \<and>
       length (rn_outputBuffer p3) = FRAME_SIZE * 4 \<and> rn_outputPos p3 < FRAME_SIZE * 4"
proof (cases "FRAME_SIZE \<le> FRAME_SIZE * 4 - rn_outputPos p")
  case True
  with assms show ?thesis
    using FRAME_SIZE_pos by (simp add: store_output_def Let_def vcopy_def)
next
  case False
  with assms show ?thesis
    using FRAME_SIZE_pos by (simp add: store_output_def Let_def vcopy_def)
qed

lemma rn_loop_inv:
  "rn_inv p xs \<Longrightarrow> inputPos \<le> length buffer \<Longrightarrow>
   \<exists>p'. rn_loop (recording infer) p buffer inputPos = Some p' \<and>
        rn_inv p' (xs @ drop inputPos buffer)"
proof (induction "recording infer" p buffer inputPos arbitrary: xs rule: rn_loop.induct)
  case (1 p buffer inputPos)
  show ?case
  proof (cases "inputPos < length buffer")
    case False
    with "1.prems" show ?thesis by (simp add: rn_loop.simps)
  next
    case True
    define n where "n = min (length buffer - inputPos) (FRAME_SIZE - rn_bufferPos p)"
    define src where "src = take n (drop inputPos buffer)"
    define fb where "fb = take (rn_bufferPos p) (rn_frameBuffer p) @ src @
                          drop (rn_bufferPos p + n) (rn_frameBuffer p)"
    define p1 where "p1 = p\<lparr>rn_frameBuffer := fb, rn_bufferPos := rn_bufferPos p + n\<rparr>"
    note ff = fill_frame_inv [OF "1.prems"(1) True, folded n_def, folded src_def, folded fb_def, folded p1_def]
    have inv: "rn_state p \<noteq> None" "length (rn_outputBuffer p) = FRAME_SIZE * 4"
      "rn_outputPos p < FRAME_SIZE * 4" "list_all (\<lambda>f. length f = FRAME_SIZE) (seen_frames p)"
      using "1.prems"(1) by (simp_all add: rn_inv_def)
    have rest: "src @ drop (inputPos + n) buffer = drop inputPos buffer"
      by (simp add: src_def add.commute [of inputPos n] flip: drop_drop)
    show ?thesis
    proof (cases "rn_bufferPos p1 = FRAME_SIZE")
      case full: True
      have p1s: "rn_state p1 \<noteq> None" "length (rn_frameBuffer p1) = FRAME_SIZE"
        using inv(1) ff(5) by (simp_all add: p1_def)
      have p1e: "rn_outputBuffer p1 = rn_outputBuffer p" "rn_outputPos p1 = rn_outputPos p"
        "seen_frames p1 = seen_frames p" "rn_frameBuffer p1 = fb"
        by (simp_all add: p1_def)
      from processFrame_inv [OF p1s, of infer]
      obtain p2 where p2: "processFrame (recording infer) p1 = Some p2" "rn_state p2 \<noteq> None"
        "length (rn_frameBuffer p2) = FRAME_SIZE" "rn_outputBuffer p2 = rn_outputBuffer p"
        "rn_outputPos p2 = rn_outputPos p"
        "seen_frames p2 = seen_frames p @ [map (\<lambda>x. x * 32767) fb]"
        unfolding p1e by blast
      have "length (rn_outputBuffer p2) = FRAME_SIZE * 4" "rn_outputPos p2 < FRAME_SIZE * 4"
        using p2 inv by simp_all
      from store_output_inv [OF p2(3) this]
      obtain p3 where p3: "store_output p2 = Some p3" "rn_state p3 = rn_state p2"
        "rn_frameBuffer p3 = rn_frameBuffer p2" "rn_bufferPos p3 = 0"
        "length (rn_outputBuffer p3) = FRAME_SIZE * 4" "rn_outputPos p3 < FRAME_SIZE * 4"
        by blast
      have s3: "seen_frames p3 = seen_frames p @ [map (\<lambda>x. x * 32767) fb]"
        using p3(2) p2(6) by (simp add: seen_frames_def)
      from full have bn: "rn_bufferPos p + n = FRAME_SIZE" by (simp add: p1_def)
      have "concat (seen_frames p) @ map (\<lambda>x. x * 32767) fb = map (\<lambda>x. x * 32767) (xs @ src)"
        using ff(6) ff(5) bn by simp
      then have inv3: "rn_inv p3 (xs @ src)"
        using p2 p3 s3 inv ff(5) FRAME_SIZE_pos by (simp add: rn_inv_def)
      from "1.hyps"(1) [OF True ff(1) refl full p2(1) p3(1) inv3 ff(3)]
      obtain p' where "rn_loop (recording infer) p3 buffer (inputPos + n) = Some p'"
        "rn_inv p' ((xs @ src) @ drop (inputPos + n) buffer)" by auto
      then show ?thesis
        using True ff(1) full p2(1) p3(1) rest by (subst rn_loop.simps) simp
    next
      case part: False
      with ff(4) have "rn_bufferPos p + n < FRAME_SIZE" by (simp add: p1_def)
      then have inv1: "rn_inv p1 (xs @ src)"
        using inv ff(5) ff(6) by (simp add: rn_inv_def p1_def)
      from "1.hyps"(2) [OF True ff(1) refl part inv1 ff(3)]
      obtain p' where "rn_loop (recording infer) p1 buffer (inputPos + n) = Some p'"
        "rn_inv p' ((xs @ src) @ drop (inputPos + n) buffer)" by auto
      then show ?thesis
        using True ff(1) part rest by (subst rn_loop.simps) simp
    qed
  qed
qed

lemma rn_process_inv:
  assumes "rn_inv p xs"
  shows "\<exists>p' out. rn_process (recording infer) p buffer = Some (p', out) \<and>
                 rn_inv p' (xs @ buffer)"
proof -
  from rn_loop_inv [OF assms, of 0 buffer infer]
  obtain p' where p': "rn_loop (recording infer) p buffer 0 = Some p'" "rn_inv p' (xs @ buffer)"
    by auto
  moreover have "rn_state p \<noteq> None" "length (rn_outputBuffer p') \<noteq> 0"
    using assms p'(2) FRAME_SIZE_pos by (simp_all add: rn_inv_def)
  ultimately show ?thesis by (auto simp: rn_process_def Let_def)
qed

lemma rn_run_inv:
  "rn_inv p xs \<Longrightarrow>
   \<exists>p'. rn_run (recording infer) p blocks = Some p' \<and> rn_inv p' (xs @ concat blocks)"
proof (induction blocks arbitrary: p xs)
  case Nil
  then show ?case by simp
next
  case (Cons b bs)
  from rn_process_inv [OF Cons.prems, of infer b]
  obtain p1 out where p1: "rn_process (recording infer) p b = Some (p1, out)" "rn_inv p1 (xs @ b)"
    by auto
  from Cons.IH [OF p1(2)] p1(1) show ?case by simp
qed

lemma rn_inv_initial:
  "rn_inv (fst (snd (rn_initialize (Some (st, [])) RNNoiseProcessor))) []"
  by (simp add: rn_inv_def seen_frames_def rn_initialize_def RNNoiseProcessor_def Let_def
      FRAME_SIZE_def)

text \<open>
  The record is an observation only: without it, a processor that runs
  \<open>recording infer\<close> is the processor that runs \<open>infer\<close>, call by call.
\<close>

lemma rn_forget_fill_frame:
  "fill_frame (rn_forget p) buffer inputPos =
   map_option (\<lambda>(p1, n). (rn_forget p1, n)) (fill_frame p buffer inputPos)"
  by (simp add: fill_frame_def rn_forget_def Let_def split: bind_splits option.splits)

lemma rn_forget_store_output:
  "store_output (rn_forget p) = map_option rn_forget (store_output p)"
  by (auto simp add: store_output_def rn_forget_def Let_def split: bind_splits option.splits)

lemma rn_forget_processFrame:
  "processFrame infer (rn_forget p) = map_option rn_forget (processFrame (recording infer) p)"
  by (auto simp add: processFrame_def rn_forget_def recording_def Let_def
      split: option.splits prod.splits)

lemma rn_forget_fields:
  "rn_bufferPos (rn_forget p) = rn_bufferPos p" "rn_outputBuffer (rn_forget p) = rn_outputBuffer p"
  "rn_outputPos (rn_forget p) = rn_outputPos p" "(rn_state (rn_forget p) = None) = (rn_state p = None)"
  by (simp_all add: rn_forget_def)

lemma rn_forget_rn_loop:
  "rn_loop infer (rn_forget p) buffer inputPos =
   map_option rn_forget (rn_loop (recording infer) p buffer inputPos)"
proof (induction "recording infer" p buffer inputPos rule: rn_loop.induct)
  case (1 p buffer inputPos)
  note L = rn_loop.simps [of infer "rn_forget p" buffer inputPos]
  note R = rn_loop.simps [of "recording infer" p buffer inputPos]
  show ?case
  proof (cases "inputPos < length buffer")
    case False
    then show ?thesis by (simp add: L R)
  next
    case True
    show ?thesis
    proof (cases "fill_frame p buffer inputPos")
      case None
      then show ?thesis using True by (simp add: L R rn_forget_fill_frame)
    next
      case (Some a)
      then obtain p1 i1 where ff: "fill_frame p buffer inputPos = Some (p1, i1)"
        by (cases a) auto
      show ?thesis
      proof (cases "rn_bufferPos p1 = FRAME_SIZE")
        case False
        from "1.hyps"(2) [OF True ff refl False] show ?thesis
          using True ff False by (simp add: L R rn_forget_fill_frame rn_forget_fields)
      next
        case full: True
        show ?thesis
        proof (cases "processFrame (recording infer) p1")
          case None
          then show ?thesis
            using True ff full
            by (simp add: L R rn_forget_fill_frame rn_forget_fields rn_forget_processFrame)
        next
          case (Some p2)
          note pf = this
          show ?thesis
          proof (cases "store_output p2")
            case None
            then show ?thesis
              using True ff full pf
              by (simp add: L R rn_forget_fill_frame rn_forget_fields rn_forget_processFrame
                  rn_forget_store_output)
          next
            case (Some p3)
            from "1.hyps"(1) [OF True ff refl full pf Some] show ?thesis
              using True ff full pf Some
              by (simp add: L R rn_forget_fill_frame rn_forget_fields rn_forget_processFrame
                  rn_forget_store_output)
          qed
        qed
      qed
    qed
  qed
qed

lemma rn_forget_rn_process:
  "rn_process infer (rn_forget p) buffer =
   map_option (\<lambda>(p1, out). (rn_forget p1, out)) (rn_process (recording infer) p buffer)"
  by (auto simp add: rn_process_def rn_forget_rn_loop rn_forget_fields Let_def split: bind_splits option.splits)

lemma rn_run_recording:
  "rn_run infer (rn_forget p) blocks = map_option rn_forget (rn_run (recording infer) p blocks)"
  by (induction blocks arbitrary: p) (auto simp add: rn_forget_rn_process split: option.splits)

lemma rn_forget_initial:
  "rn_forget (fst (snd (rn_initialize (Some (st, seen)) RNNoiseProcessor))) =
   fst (snd (rn_initialize (Some st) RNNoiseProcessor))"
  by (simp add: rn_forget_def rn_initialize_def RNNoiseProcessor_def Let_def)

text \<open>
  C3. The inference step is a parameter of \<open>process\<close>, so what it is called with is
  read off an inference that records its arguments in its own state, started with the
  empty record. Whatever the sizes of the blocks given to \<open>process\<close> (empty blocks
  included), starting from the initialised processor every call returns, and the
  arguments the inference step was called with are exactly the consecutive complete
  480-sample frames of the concatenated input, scaled by 32767, each once and in order:
  every call gets the whole frame buffer, read from its first element, and never a
  partly filled one. Without the record, the run is the run of the processor with the
  inference step \<open>infer\<close> itself.
\<close>

theorem C3_inference_on_complete_frames:
  "\<exists>p'. rn_run (recording infer) (fst (snd (rn_initialize (Some (st, [])) RNNoiseProcessor)))
           blocks = Some p' \<and>
        map_option snd (rn_state p') =
          Some (map (map (\<lambda>x. x * 32767)) (complete_frames (concat blocks))) \<and>
        list_all (\<lambda>f. length f = FRAME_SIZE)
          (map (map (\<lambda>x. x * 32767)) (complete_frames (concat blocks))) \<and>
        rn_run infer (fst (snd (rn_initialize (Some st) RNNoiseProcessor))) blocks =
          Some (rn_forget p')"
proof -
  from rn_run_inv [OF rn_inv_initial, of infer st blocks]
  obtain p' where p': "rn_run (recording infer)
      (fst (snd (rn_initialize (Some (st, [])) RNNoiseProcessor))) blocks = Some p'"
    "rn_inv p' (concat blocks)" by auto
  let ?r = "map (\<lambda>x. x * 32767) (take (rn_bufferPos p') (rn_frameBuffer p'))"
  from p'(2) have i: "list_all (\<lambda>f. length f = FRAME_SIZE) (seen_frames p')"
    "rn_bufferPos p' < FRAME_SIZE" "length (rn_frameBuffer p') = FRAME_SIZE"
    "concat (seen_frames p') @ ?r = map (\<lambda>x. x * 32767) (concat blocks)"
    "rn_state p' \<noteq> None"
    by (simp_all add: rn_inv_def)
  have "length ?r < FRAME_SIZE" using i(2,3) by simp
  from complete_frames_concat [OF i(1) this]
  have "seen_frames p' = complete_frames (map (\<lambda>x. x * 32767) (concat blocks))"
    by (simp only: i(4))
  then have s: "seen_frames p' = map (map (\<lambda>x. x * 32767)) (complete_frames (concat blocks))"
    by (simp only: complete_frames_map)
  have "map_option snd (rn_state p') = Some (seen_frames p')"
    using i(5) by (auto simp: seen_frames_def)
  moreover have "rn_run infer (fst (snd (rn_initialize (Some st) RNNoiseProcessor))) blocks =
                 Some (rn_forget p')"
    using rn_run_recording [of infer "fst (snd (rn_initialize (Some (st, [])) RNNoiseProcessor))"
        blocks] p'(1)
    by (simp only: rn_forget_initial option.map)
  ultimately show ?thesis using p'(1) s i(1) by simp
qed

lemma blend_sample_processed: "blend_sample a processed original = processed"
  by (simp add: blend_sample_def)

lemma processFrame_ignores_attenuation:
  assumes "rn_state p = Some st" and "length (rn_frameBuffer p) = FRAME_SIZE"
    and "infer st (map (\<lambda>i. rn_frameBuffer p ! i * 32767) [0..<FRAME_SIZE]) = (st1, vad, out)"
  shows "map_option rn_frameBuffer (processFrame infer p) =
         Some (map (\<lambda>i. out i / 32767) [0..<FRAME_SIZE])"
  using assms by (simp add: processFrame_def Let_def blend_sample_processed)

lemma read_back:
  "length xs \<le> n \<Longrightarrow> map (\<lambda>i. (xs @ ys) ! ((0 + i) mod n)) [0..<length xs] = xs"
  by (rule nth_equalityI) (simp_all add: nth_append)

lemma process_full_frame:
  defines "p \<equiv> setAttenuation 0 (fst (snd (rn_initialize (Some ()) RNNoiseProcessor)))"
  shows "map_option snd (rn_process (\<lambda>st frame. (st, 0, \<lambda>i. 32767)) p (replicate FRAME_SIZE (1 / 2)))
         = Some (replicate FRAME_SIZE 1)"
proof -
  let ?infer = "\<lambda>(st::unit) (frame::real list). (st, 0::real, \<lambda>i::nat. 32767::real)"
  let ?buf = "replicate FRAME_SIZE (1 / 2 :: real)"
  have p: "rn_state p = Some ()" "rn_frameBuffer p = replicate FRAME_SIZE 0" "rn_bufferPos p = 0"
    "rn_outputBuffer p = replicate (FRAME_SIZE * 4) 0" "rn_outputPos p = 0" "rn_attenuation p = 1"
    by (simp_all add: p_def setAttenuation_def rn_initialize_def RNNoiseProcessor_def Let_def
        clampf_def pow10_def)
  define p1 where "p1 = p\<lparr>rn_frameBuffer := ?buf, rn_bufferPos := FRAME_SIZE\<rparr>"
  have f: "fill_frame p ?buf 0 = Some (p1, FRAME_SIZE)"
    by (simp add: fill_frame_def vcopy_def p p1_def Let_def)
  define p2 where "p2 = p1\<lparr>rn_state := Some (), rn_lastVAD := 0,
      rn_frameBuffer := replicate FRAME_SIZE 1\<rparr>"
  have pf: "processFrame ?infer p1 = Some p2"
    by (simp add: processFrame_def p1_def p2_def p blend_sample_def Let_def map_replicate_const)
  define p3 where "p3 = p2\<lparr>rn_outputBuffer := replicate FRAME_SIZE 1 @ replicate (FRAME_SIZE * 3) 0,
      rn_outputPos := FRAME_SIZE, rn_bufferPos := 0\<rparr>"
  have so: "store_output p2 = Some p3"
    by (simp add: store_output_def vcopy_def p2_def p1_def p3_def p Let_def FRAME_SIZE_def)
  have lp: "rn_loop ?infer p ?buf 0 = Some p3"
    using f pf so
    by (subst rn_loop.simps, simp add: p1_def FRAME_SIZE_def)
       (subst rn_loop.simps, simp add: FRAME_SIZE_def)
  have sp: "nat ((int (rn_outputPos p3) + int (length (rn_outputBuffer p3)) - int (length ?buf)) mod 2 ^ 64)
              mod length (rn_outputBuffer p3) = 0"
    by (simp add: p3_def FRAME_SIZE_def)
  have "map (\<lambda>i. rn_outputBuffer p3 ! ((0 + i) mod length (rn_outputBuffer p3))) [0..<length ?buf]
        = replicate FRAME_SIZE 1"
    using read_back [of "replicate FRAME_SIZE (1::real)" "FRAME_SIZE * 4" "replicate (FRAME_SIZE * 3) 0"]
    by (simp add: p3_def mult.commute)
  with lp sp FRAME_SIZE_pos show ?thesis
    by (simp add: rn_process_def p Let_def p3_def)
qed

text \<open>
  C1. The output of a frame is claimed to be the mix
  \<open>processed * (1 - a) + dry * a\<close>, so that 0 dB (\<open>a = 1\<close>) gives the dry frame.
  With \<open>setAttenuation(0)\<close>, a frame of 480 samples of value 1/2 and an inference
  step that returns the constant 32767 (a processed sample of 1), \<open>processFrame\<close> leaves
  the processed samples in the frame, not the dry ones, and \<open>process\<close> returns them to
  the caller: the blend is computed and then overwritten by the processed sample.
\<close>

theorem C1_attenuation_ignored:
  "rn_attenuation (setAttenuation 0 (RNNoiseProcessor :: unit rnnoise)) = 1 \<and>
   map_option rn_frameBuffer
     (processFrame (\<lambda>st frame. (st, 0, \<lambda>i. 32767))
        (setAttenuation 0
           (RNNoiseProcessor\<lparr>rn_state := Some (), rn_frameBuffer := replicate FRAME_SIZE (1 / 2)\<rparr>)))
   = Some (replicate FRAME_SIZE 1) \<and>
   map_option snd
     (rn_process (\<lambda>st frame. (st, 0, \<lambda>i. 32767))
        (setAttenuation 0 (fst (snd (rn_initialize (Some ()) RNNoiseProcessor))))
        (replicate FRAME_SIZE (1 / 2)))
   = Some (replicate FRAME_SIZE 1)"
proof -
  have "rn_attenuation (setAttenuation 0 (RNNoiseProcessor :: unit rnnoise)) = 1"
    by (simp add: setAttenuation_def clampf_def pow10_def)
  moreover have "map_option rn_frameBuffer
     (processFrame (\<lambda>st frame. (st, 0, \<lambda>i. 32767))
        (setAttenuation 0
           (RNNoiseProcessor\<lparr>rn_state := Some (), rn_frameBuffer := replicate FRAME_SIZE (1 / 2)\<rparr>)))
   = Some (replicate FRAME_SIZE 1)"
    by (simp add: setAttenuation_def RNNoiseProcessor_def processFrame_def blend_sample_def
        Let_def map_replicate_const)
  ultimately show ?thesis using process_full_frame by simp
qed

section \<open>Properties of the resampler\<close>

lemma fl64_values:
  "fl64 (1 / 2) = 1 / 2" "fl64 1 = 1" "fl64 (3 / 2) = 3 / 2" "fl64 2 = 2" "fl64 (5 / 2) = 5 / 2"
  "fl64 3 = 3" "fl64 4 = 4" "fl64 (- 1) = - 1"
proof -
  show "fl64 (1 / 2) = 1 / 2"
    unfolding fl64_def
    by (rule fl_round_exact [where k = "- 1" and m = 4503599627370496]) (simp_all add: powr_minus)
  show "fl64 1 = 1"
    unfolding fl64_def
    by (rule fl_round_exact [where k = 0 and m = 4503599627370496]) (simp_all add: powr_minus)
  show "fl64 (3 / 2) = 3 / 2"
    unfolding fl64_def
    by (rule fl_round_exact [where k = 0 and m = 6755399441055744]) (simp_all add: powr_minus)
  show "fl64 2 = 2"
    unfolding fl64_def
    by (rule fl_round_exact [where k = 1 and m = 4503599627370496]) (simp_all add: powr_minus)
  show "fl64 (5 / 2) = 5 / 2"
    unfolding fl64_def
    by (rule fl_round_exact [where k = 1 and m = 5629499534213120]) (simp_all add: powr_minus)
  show "fl64 3 = 3"
    unfolding fl64_def
    by (rule fl_round_exact [where k = 1 and m = 6755399441055744]) (simp_all add: powr_minus)
  show "fl64 4 = 4"
    unfolding fl64_def
    by (rule fl_round_exact [where k = 2 and m = 4503599627370496]) (simp_all add: powr_minus)
  show "fl64 (- 1) = - 1"
    unfolding fl64_def
    by (rule fl_round_exact [where k = 0 and m = "- 4503599627370496"]) (simp_all add: powr_minus)
qed

lemma rs_loop_step:
  "position < bound \<Longrightarrow> 0 \<le> position \<Longrightarrow>
   rs_loop ratio channels input bound position out =
     Option.bind (interpolate channels input position)
       (\<lambda>ys. rs_loop ratio channels input bound (fl64 (position + ratio)) (out @ ys))"
  by (subst rs_loop.simps) simp

lemma rs_loop_stop:
  "\<not> position < bound \<Longrightarrow> rs_loop ratio channels input bound position out = Some (position, out)"
  by (subst rs_loop.simps) simp

text \<open>
  C5. Two consecutive blocks are claimed to give the samples of one call on their
  concatenation. Upsampling 24 kHz to 48 kHz (ratio 1/2), the samples 0, 1, 2, 3 in one
  call give six output samples; as the blocks 0, 1 and 2, 3 they give four: the two
  samples that lie between the blocks (1 and 3/2) are never produced, the position is
  reset to 0 at the boundary and the retained last sample is not read.
\<close>

theorem C5_block_boundary_gap:
  "map_option snd (rs_run (rs_initialize 24000 48000 1) [[0, 1, 2, 3]]) =
     Some [0, 1 / 2, 1, 3 / 2, 2, 5 / 2] \<and>
   map_option snd (rs_run (rs_initialize 24000 48000 1) [[0, 1], [2, 3]]) =
     Some [0, 1 / 2, 2, 5 / 2]"
  by (simp add: rs_initialize_def fdiv_def rs_process_def interpolate_def rd_def Let_def
      rs_loop_step rs_loop_stop fl64_values)

lemma fl64_at:
  fixes x :: real
  assumes "2 powr of_int k \<le> \<bar>x\<bar>" and "\<bar>x\<bar> < 2 powr (of_int k + 1)"
    and "rne (x / 2 powr (of_int k - 52)) = m" and "y = of_int m * 2 powr (of_int k - 52)"
  shows "fl64 x = y"
proof -
  have "fl64 x = of_int (rne (x / 2 powr (of_int k - (real 53 - 1)))) *
                 2 powr (of_int k - (real 53 - 1))"
    unfolding fl64_def using assms(1,2) by (rule fl_round_at)
  also have "of_int k - (real 53 - 1) = of_int k - 52" by simp
  finally show ?thesis by (simp only: assms(3,4))
qed

lemma ratio_one_third: "fl64 (16000 / 48000) = 6004799503160661 / 18014398509481984"
  by (rule fl64_at [where k = "- 2" and m = 6004799503160661])
     (simp_all add: powr_minus rne_def Let_def)

lemma positions_one_third:
  "fl64 (0 + 6004799503160661 / 18014398509481984) = 6004799503160661 / 18014398509481984"
  "fl64 (6004799503160661 / 18014398509481984 + 6004799503160661 / 18014398509481984) =
     6004799503160661 / 9007199254740992"
  "fl64 (6004799503160661 / 9007199254740992 + 6004799503160661 / 18014398509481984) = 1"
  "fl64 (1 + 6004799503160661 / 18014398509481984) = 6004799503160661 / 4503599627370496"
  "fl64 (6004799503160661 / 4503599627370496 + 6004799503160661 / 18014398509481984) =
     7505999378950826 / 4503599627370496"
  "fl64 (7505999378950826 / 4503599627370496 + 6004799503160661 / 18014398509481984) =
     9007199254740991 / 4503599627370496"
  "fl64 (9007199254740991 / 4503599627370496 + 6004799503160661 / 18014398509481984) =
     5254199565265578 / 2251799813685248"
proof -
  show "fl64 (0 + 6004799503160661 / 18014398509481984) = 6004799503160661 / 18014398509481984"
    by (rule fl64_at [where k = "- 2" and m = 6004799503160661])
       (simp_all add: powr_minus rne_def Let_def)
  show "fl64 (6004799503160661 / 18014398509481984 + 6004799503160661 / 18014398509481984) =
     6004799503160661 / 9007199254740992"
    by (rule fl64_at [where k = "- 1" and m = 6004799503160661])
       (simp_all add: powr_minus rne_def Let_def)
  show "fl64 (6004799503160661 / 9007199254740992 + 6004799503160661 / 18014398509481984) = 1"
    by (rule fl64_at [where k = "- 1" and m = 9007199254740992])
       (simp_all add: powr_minus rne_def Let_def)
  show "fl64 (1 + 6004799503160661 / 18014398509481984) = 6004799503160661 / 4503599627370496"
    by (rule fl64_at [where k = 0 and m = 6004799503160661])
       (simp_all add: powr_minus rne_def Let_def)
  show "fl64 (6004799503160661 / 4503599627370496 + 6004799503160661 / 18014398509481984) =
     7505999378950826 / 4503599627370496"
    by (rule fl64_at [where k = 0 and m = 7505999378950826])
       (simp_all add: powr_minus rne_def Let_def)
  show "fl64 (7505999378950826 / 4503599627370496 + 6004799503160661 / 18014398509481984) =
     9007199254740991 / 4503599627370496"
    by (rule fl64_at [where k = 0 and m = 9007199254740991])
       (simp_all add: powr_minus rne_def Let_def)
  show "fl64 (9007199254740991 / 4503599627370496 + 6004799503160661 / 18014398509481984) =
     5254199565265578 / 2251799813685248"
    by (rule fl64_at [where k = 1 and m = 5254199565265578])
       (simp_all add: powr_minus rne_def Let_def)
qed


lemma ratio_one_third_reduced: "fl64 (1 / 3) = 6004799503160661 / 18014398509481984"
  using ratio_one_third by simp

lemma rs_loop_mono_step:
  assumes "position < bound" and "0 \<le> position" and "nat \<lfloor>position\<rfloor> + 1 < length input"
  shows "\<exists>y. rs_loop ratio 1 input bound position out =
             rs_loop ratio 1 input bound (fl64 (position + ratio)) (out @ [y])"
proof -
  have "interpolate 1 input position =
        Some [input ! nat \<lfloor>position\<rfloor> * (1 - (position - real (nat \<lfloor>position\<rfloor>))) +
              input ! (nat \<lfloor>position\<rfloor> + 1) * (position - real (nat \<lfloor>position\<rfloor>))]"
    using assms(3) by (simp add: interpolate_def rd_def Let_def)
  then have "rs_loop ratio 1 input bound position out =
             rs_loop ratio 1 input bound (fl64 (position + ratio))
               (out @ [input ! nat \<lfloor>position\<rfloor> * (1 - (position - real (nat \<lfloor>position\<rfloor>))) +
                       input ! (nat \<lfloor>position\<rfloor> + 1) * (position - real (nat \<lfloor>position\<rfloor>))])"
    using assms(1,2) by (subst rs_loop_step) (simp_all del: One_nat_def)
  then show ?thesis by (rule exI)
qed

lemma rs_loop_one_third:
  "\<exists>ys. length ys = 7 \<and>
     rs_loop (6004799503160661 / 18014398509481984) 1 [0, 3, 6] 2 0 [] =
       Some (5254199565265578 / 2251799813685248, ys)"
proof -
  let ?r = "6004799503160661 / 18014398509481984 :: real"
  let ?L = "rs_loop ?r 1 [0, 3, 6] 2"
  from rs_loop_mono_step [of 0 2 "[0, 3, 6]" ?r "[]"]
  obtain y0 where "?L 0 [] = ?L ?r [y0]"
    unfolding positions_one_third by auto
  also from rs_loop_mono_step [of ?r 2 "[0, 3, 6]" ?r "[y0]"]
  obtain y1 where "?L ?r [y0] = ?L (6004799503160661 / 9007199254740992) [y0, y1]"
    unfolding positions_one_third by auto
  also from rs_loop_mono_step [of "6004799503160661 / 9007199254740992" 2 "[0, 3, 6]" ?r "[y0, y1]"]
  obtain y2 where "?L (6004799503160661 / 9007199254740992) [y0, y1] = ?L 1 [y0, y1, y2]"
    unfolding positions_one_third by auto
  also from rs_loop_mono_step [of 1 2 "[0, 3, 6]" ?r "[y0, y1, y2]"]
  obtain y3 where "?L 1 [y0, y1, y2] =
      ?L (6004799503160661 / 4503599627370496) [y0, y1, y2, y3]"
    unfolding positions_one_third by auto
  also from rs_loop_mono_step [of "6004799503160661 / 4503599627370496" 2 "[0, 3, 6]" ?r
      "[y0, y1, y2, y3]"]
  obtain y4 where "?L (6004799503160661 / 4503599627370496) [y0, y1, y2, y3] =
      ?L (7505999378950826 / 4503599627370496) [y0, y1, y2, y3, y4]"
    unfolding positions_one_third by auto
  also from rs_loop_mono_step [of "7505999378950826 / 4503599627370496" 2 "[0, 3, 6]" ?r
      "[y0, y1, y2, y3, y4]"]
  obtain y5 where "?L (7505999378950826 / 4503599627370496) [y0, y1, y2, y3, y4] =
      ?L (9007199254740991 / 4503599627370496) [y0, y1, y2, y3, y4, y5]"
    unfolding positions_one_third by auto
  also from rs_loop_mono_step [of "9007199254740991 / 4503599627370496" 2 "[0, 3, 6]" ?r
      "[y0, y1, y2, y3, y4, y5]"]
  obtain y6 where "?L (9007199254740991 / 4503599627370496) [y0, y1, y2, y3, y4, y5] =
      ?L (5254199565265578 / 2251799813685248) [y0, y1, y2, y3, y4, y5, y6]"
    unfolding positions_one_third by auto
  also have "?L (5254199565265578 / 2251799813685248) [y0, y1, y2, y3, y4, y5, y6] =
      Some (5254199565265578 / 2251799813685248, [y0, y1, y2, y3, y4, y5, y6])"
    by (rule rs_loop_stop) simp
  finally show ?thesis by simp
qed

text \<open>
  The position is accumulated in \<open>double\<close>. Upsampling 16 kHz to 48 kHz, the ratio is
  1/3 rounded to \<open>double\<close>, and the position after six additions is \<open>2 - 2^-52\<close>, still
  below \<open>frames - 1 = 2\<close>: a block of three frames gives seven output samples, where
  positions accumulated without rounding would give six.
\<close>

lemma rs_process_one_third:
  "map_option (length \<circ> snd) (rs_process (rs_initialize 16000 48000 1) [0, 3, 6] 3) = Some 7"
proof -
  from rs_loop_one_third obtain ys where ys: "length ys = 7"
    "rs_loop (6004799503160661 / 18014398509481984) 1 [0, 3, 6] 2 0 [] =
       Some (5254199565265578 / 2251799813685248, ys)" by blast
  show ?thesis
    by (simp add: rs_process_def rs_initialize_def fdiv_def ratio_one_third_reduced fl64_values Let_def
        rd_def ys ys(2) [unfolded One_nat_def])
qed

section \<open>Properties of the ring buffer\<close>

lemma sz_sub_le [simp]: "b \<le> a \<Longrightarrow> sz_sub a b = a - b"
  by (simp add: sz_sub_def)

lemma availableWrite_inv:
  "rb_inv rb \<Longrightarrow> availableWrite rb =
     (if rb_readPos rb \<le> rb_writePos rb then rb_capacity rb - (rb_writePos rb - rb_readPos rb)
      else rb_readPos rb - rb_writePos rb - 1)"
  by (auto simp: rb_inv_def availableWrite_def)

lemma availableRead_inv:
  "rb_inv rb \<Longrightarrow> availableRead rb =
     (if rb_readPos rb \<le> rb_writePos rb then rb_writePos rb - rb_readPos rb
      else rb_capacity rb + 1 - rb_readPos rb + rb_writePos rb)"
  by (auto simp: rb_inv_def availableRead_def)

lemma length_rb_contents: "rb_inv rb \<Longrightarrow> length (rb_contents rb) = availableRead rb"
  by (auto simp: availableRead_inv rb_contents_def rb_inv_def)

lemma rb_write_spec:
  assumes inv: "rb_inv rb"
  shows "\<exists>rb'. rb_write rb data = Some (rb', min (length data) (availableWrite rb)) \<and>
           rb_inv rb' \<and> rb_readPos rb' = rb_readPos rb \<and> rb_capacity rb' = rb_capacity rb \<and>
           rb_contents rb' = rb_contents rb @ take (availableWrite rb) data"
proof -
  define w r cap buf where "w = rb_writePos rb" and "r = rb_readPos rb"
    and "cap = rb_capacity rb" and "buf = rb_buffer rb"
  define n where "n = min (length data) (availableWrite rb)"
  define d where "d = take n data"
  from inv have len: "length buf = cap + 1" and wc: "w \<le> cap" and rc: "r \<le> cap"
    by (simp_all add: rb_inv_def w_def r_def cap_def buf_def)
  have av: "availableWrite rb = (if r \<le> w then cap - (w - r) else r - w - 1)"
    using availableWrite_inv [OF inv] by (simp add: w_def r_def cap_def)
  have d_eq: "d = take (availableWrite rb) data" by (simp add: d_def n_def min_def)
  have ld: "length d = n" by (simp add: d_def n_def)
  show ?thesis
  proof (cases "n = 0")
    case True
    then have "d = []" using ld by simp
    with True inv d_eq show ?thesis
      by (simp add: rb_write_def Let_def n_def [symmetric])
  next
    case n0: False
    have nav: "n \<le> availableWrite rb" by (simp add: n_def)
    show ?thesis
    proof (cases "n \<le> cap + 1 - w")
      case nowrap: True
      define b1 where "b1 = take w buf @ d @ drop (w + n) buf"
      have lb1: "length b1 = cap + 1" using len wc nowrap ld by (simp add: b1_def)
      have wr: "rb_write rb data = Some (rb\<lparr>rb_buffer := b1, rb_writePos := (w + n) mod (cap + 1)\<rparr>, n)"
        using n0 nowrap len wc ld
        by (simp add: rb_write_def Let_def n_def [symmetric] w_def [symmetric] buf_def [symmetric]
            vcopy_def min_absorb1 d_def [symmetric] b1_def)
      have cont: "rb_contents (rb\<lparr>rb_buffer := b1, rb_writePos := (w + n) mod (cap + 1)\<rparr>) =
                  rb_contents rb @ d"
      proof (cases "r \<le> w")
        case True
        with nav av have n_le: "n \<le> cap - (w - r)" by simp
        show ?thesis
        proof (cases "w + n = cap + 1")
          case full: True
          then have "0 < r" using n_le True wc by arith
          then show ?thesis
            using full True len wc rc ld
            by (simp add: rb_contents_def r_def [symmetric] w_def [symmetric] buf_def [symmetric] b1_def drop_take)
        next
          case False
          then have "w + n < cap + 1" using nowrap wc by arith
          then show ?thesis
            using True len wc rc ld
            by (simp add: rb_contents_def r_def [symmetric] w_def [symmetric] buf_def [symmetric] b1_def drop_take)
        qed
      next
        case False
        with nav av have "w + n < r" using n0 by simp
        then show ?thesis
          using False len wc rc ld
          by (simp add: rb_contents_def r_def [symmetric] w_def [symmetric] buf_def [symmetric] b1_def drop_take)
      qed
      have "rb_inv (rb\<lparr>rb_buffer := b1, rb_writePos := (w + n) mod (cap + 1)\<rparr>)"
        using inv lb1 by (simp add: rb_inv_def cap_def [symmetric] less_Suc_eq_le [symmetric])
      with wr cont d_eq show ?thesis by (simp add: n_def)
    next
      case wrap: False
      define f where "f = cap + 1 - w"
      have fn: "f < n" using wrap by (simp add: f_def)
      have rw: "r \<le> w"
      proof (rule ccontr)
        assume "\<not> r \<le> w"
        with nav av wrap rc show False by simp
      qed
      with nav av have n_le: "n \<le> cap - (w - r)" by simp
      define b1 where "b1 = take w buf @ take f d"
      define rest where "rest = take (n - f) (drop f d)"
      define b2 where "b2 = rest @ drop (n - f) b1"
      have lrest: "length rest = n - f" using ld fn by (simp add: rest_def)
      have lb1: "length b1 = cap + 1" using len wc ld fn by (simp add: b1_def f_def)
      have lb2: "length b2 = cap + 1" using lb1 lrest n_le wc by (simp add: b2_def)
      have nfr: "n - f < r" using n_le fn wc rw by (simp add: f_def)
      have wmod: "(w + n) mod (cap + 1) = n - f"
      proof -
        have "w + n = (n - f) + (cap + 1)" using fn wc by (simp add: f_def)
        then have "(w + n) mod (cap + 1) = (n - f) mod (cap + 1)"
          by (simp only: mod_add_self2)
        moreover have "n - f < cap + 1" using nfr rc by simp
        ultimately show ?thesis by (simp only: mod_less)
      qed
      have v1: "vcopy (take f d) buf w = Some b1"
        using len wc ld fn by (simp add: vcopy_def b1_def f_def)
      have v2: "vcopy rest b1 0 = Some b2"
        using lb1 lrest n_le by (simp add: vcopy_def b2_def)
      have tfd: "take f data = take f d" using fn by (simp add: d_def min_absorb1)
      have rest2: "take (n - f) (drop f data) = rest"
        by (simp add: rest_def d_def drop_take)
      have wr: "rb_write rb data = Some (rb\<lparr>rb_buffer := b2, rb_writePos := n - f\<rparr>, n)"
      proof -
        have "sz_sub (length buf) w = f" using len wc by (simp add: f_def)
        then have "min n (sz_sub (length buf) w) = f" using fn by simp
        then show ?thesis
          using n0 fn v1 v2 wmod len
          by (simp add: rb_write_def Let_def n_def [symmetric] w_def [symmetric]
              buf_def [symmetric] tfd rest2)
      qed
      have "drop r b2 = drop r b1" using nfr lrest by (simp add: b2_def)
      moreover have "drop r b1 = take (w - r) (drop r buf) @ take f d"
        using rw len wc by (simp add: b1_def drop_take)
      moreover have "take (n - f) b2 = rest" using lrest by (simp add: b2_def)
      moreover have "take f d @ rest = d"
        using ld fn by (simp add: rest_def)
      ultimately have cont: "rb_contents (rb\<lparr>rb_buffer := b2, rb_writePos := n - f\<rparr>) = rb_contents rb @ d"
        using nfr rw
        by (simp add: rb_contents_def r_def [symmetric] w_def [symmetric] buf_def [symmetric])
      have "rb_inv (rb\<lparr>rb_buffer := b2, rb_writePos := n - f\<rparr>)"
        using inv lb2 nfr rc by (simp add: rb_inv_def cap_def [symmetric] r_def [symmetric])
      with wr cont d_eq show ?thesis by (simp add: n_def)
    qed
  qed
qed


lemma rb_read_spec:
  assumes inv: "rb_inv rb"
  shows "\<exists>rb'. rb_read rb count = Some (rb', take count (rb_contents rb)) \<and>
           rb_inv rb' \<and> rb_writePos rb' = rb_writePos rb \<and> rb_capacity rb' = rb_capacity rb \<and>
           rb_contents rb' = drop count (rb_contents rb)"
proof -
  define w r cap buf where "w = rb_writePos rb" and "r = rb_readPos rb"
    and "cap = rb_capacity rb" and "buf = rb_buffer rb"
  define n where "n = min count (availableRead rb)"
  from inv have len: "length buf = cap + 1" and wc: "w \<le> cap" and rc: "r \<le> cap"
    by (simp_all add: rb_inv_def w_def r_def cap_def buf_def)
  have av: "availableRead rb = (if r \<le> w then w - r else cap + 1 - r + w)"
    using availableRead_inv [OF inv] by (simp add: w_def r_def cap_def)
  have lc: "length (rb_contents rb) = availableRead rb" by (rule length_rb_contents [OF inv])
  have tk: "take count (rb_contents rb) = take n (rb_contents rb)"
    using lc by (simp add: n_def min_def)
  have dr: "drop count (rb_contents rb) = drop n (rb_contents rb)"
    using lc by (simp add: n_def min_def)
  have cont: "rb_contents rb = (if r \<le> w then take (w - r) (drop r buf)
                                  else drop r buf @ take w buf)"
    by (simp add: rb_contents_def w_def r_def buf_def)
  have sz: "sz_sub (length buf) r = cap + 1 - r" using len rc by simp
  show ?thesis
  proof (cases "n = 0")
    case True
    then have "take n (rb_contents rb) = []" by simp
    moreover from True have "drop n (rb_contents rb) = rb_contents rb" by simp
    ultimately show ?thesis
      using True inv tk dr by (simp add: rb_read_def Let_def n_def [symmetric])
  next
    case n0: False
    have nav: "n \<le> availableRead rb" by (simp add: n_def)
    show ?thesis
    proof (cases "n \<le> cap + 1 - r")
      case nowrap: True
      have fp: "min n (sz_sub (length buf) r) = n" using nowrap sz by simp
      have rd1: "rb_read rb count = Some (rb\<lparr>rb_readPos := (r + n) mod (cap + 1)\<rparr>, take n (drop r buf))"
        using n0 nowrap len rc fp
        by (simp add: rb_read_def Let_def n_def [symmetric] r_def [symmetric] buf_def [symmetric]
            vread_def)
      have tk2: "take n (rb_contents rb) = take n (drop r buf)"
        using nav av nowrap len rc by (auto simp: cont)
      have inv': "rb_inv (rb\<lparr>rb_readPos := (r + n) mod (cap + 1)\<rparr>)"
        using inv by (simp add: rb_inv_def cap_def [symmetric] less_Suc_eq_le [symmetric])
      have c': "rb_contents (rb\<lparr>rb_readPos := (r + n) mod (cap + 1)\<rparr>) = drop n (rb_contents rb)"
      proof (cases "r \<le> w")
        case True
        with nav av have "r + n \<le> w" by simp
        then show ?thesis
          using True wc
          by (simp add: rb_contents_def r_def [symmetric] w_def [symmetric] buf_def [symmetric]
              drop_take add.commute)
      next
        case False
        show ?thesis
        proof (cases "r + n = cap + 1")
          case full: True
          then have "n = length (drop r buf)" using len by simp
          then show ?thesis
            using False full
            by (simp add: rb_contents_def r_def [symmetric] w_def [symmetric] buf_def [symmetric])
        next
          case nf: False
          then have lt: "r + n < cap + 1" using nowrap rc by arith
          then have "\<not> r + n \<le> w" using False by simp
          then show ?thesis
            using False lt len
            by (simp add: rb_contents_def r_def [symmetric] w_def [symmetric] buf_def [symmetric]
                add.commute)
        qed
      qed
      from rd1 tk tk2 inv' c' dr show ?thesis by simp
    next
      case wrap: False
      define f where "f = cap + 1 - r"
      have fn: "f < n" using wrap by (simp add: f_def)
      have wr: "w < r"
      proof (rule ccontr)
        assume "\<not> w < r"
        with nav av wrap rc wc show False by simp
      qed
      with nav av have n_le: "n \<le> f + w" by (simp add: f_def)
      have fp: "min n (sz_sub (length buf) r) = f" using fn sz by (simp add: f_def)
      have rmod: "(r + n) mod (cap + 1) = n - f"
      proof -
        have "r + n = (n - f) + (cap + 1)" using fn rc by (simp add: f_def)
        then have "(r + n) mod (cap + 1) = (n - f) mod (cap + 1)"
          by (simp only: mod_add_self2)
        moreover have "n - f < cap + 1" using n_le wc by simp
        ultimately show ?thesis by (simp only: mod_less)
      qed
      have lA: "length (drop r buf) = f" using len by (simp add: f_def)
      have rd1: "rb_read rb count = Some (rb\<lparr>rb_readPos := n - f\<rparr>, drop r buf @ take (n - f) buf)"
        using n0 fn len rc fp rmod n_le wc lA
        by (simp add: rb_read_def Let_def n_def [symmetric] r_def [symmetric] buf_def [symmetric]
            vread_def f_def)
      have tk2: "take n (rb_contents rb) = drop r buf @ take (n - f) buf"
        using wr lA fn n_le by (simp add: cont min_absorb1)
      have inv': "rb_inv (rb\<lparr>rb_readPos := n - f\<rparr>)"
        using inv n_le wc by (simp add: rb_inv_def cap_def [symmetric] w_def [symmetric])
      have "n - f \<le> w" using n_le by simp
      then have c': "rb_contents (rb\<lparr>rb_readPos := n - f\<rparr>) = drop n (rb_contents rb)"
        using wr lA fn
        by (simp add: rb_contents_def r_def [symmetric] w_def [symmetric] buf_def [symmetric]
            drop_take)
      from rd1 tk tk2 inv' c' dr show ?thesis by simp
    qed
  qed
qed

section \<open>Properties of the engine\<close>

lemma capture_convert_fields:
  "capture_convert e buffer frames channels = Some (e1, audioData) \<Longrightarrow>
   en_inputBuffer e1 = en_inputBuffer e \<and> en_status e1 = en_status e"
  by (auto simp: capture_convert_def split: bind_splits option.splits)

text \<open>
  C6, as the code has it. When the converted samples of a capture callback do not all
  fit into the input ring, the callback returns, the read position and the samples
  already in the ring are unchanged, the first \<open>availableWrite\<close> samples of the block are
  appended and the rest of the block, its newest samples, is discarded; the status
  record, which holds the only counter (\<open>bufferUnderruns\<close>), is unchanged.
\<close>

theorem C6_overflow_keeps_oldest:
  assumes inv: "rb_inv (en_inputBuffer e)"
    and conv: "capture_convert e buffer frames channels = Some (e1, audioData)"
    and full: "availableWrite (en_inputBuffer e) < length audioData"
  shows "\<exists>e'. onAudioCaptured e buffer frames sampleRate channels = Some e' \<and>
           rb_readPos (en_inputBuffer e') = rb_readPos (en_inputBuffer e) \<and>
           rb_contents (en_inputBuffer e') =
             rb_contents (en_inputBuffer e) @ take (availableWrite (en_inputBuffer e)) audioData \<and>
           en_status e' = en_status e"
proof -
  from capture_convert_fields [OF conv]
  have f: "en_inputBuffer e1 = en_inputBuffer e" "en_status e1 = en_status e" by simp_all
  from rb_write_spec [OF inv, of audioData]
  obtain rb' where "rb_write (en_inputBuffer e) audioData =
      Some (rb', min (length audioData) (availableWrite (en_inputBuffer e)))"
    "rb_readPos rb' = rb_readPos (en_inputBuffer e)"
    "rb_contents rb' = rb_contents (en_inputBuffer e) @ take (availableWrite (en_inputBuffer e)) audioData"
    by blast
  with conv f show ?thesis by (simp add: onAudioCaptured_def)
qed

theorem C6_overflow_keeps_oldest_witness:
  "rb_inv (en_inputBuffer ((Engine default_Config :: unit engine)
       \<lparr>en_inputBuffer := \<lparr>rb_buffer = [1, 2, 0], rb_capacity = 2, rb_writePos = 2,
                            rb_readPos = 0\<rparr>\<rparr>)) \<and>
   capture_convert ((Engine default_Config :: unit engine)
       \<lparr>en_inputBuffer := \<lparr>rb_buffer = [1, 2, 0], rb_capacity = 2, rb_writePos = 2,
                            rb_readPos = 0\<rparr>\<rparr>) [3] 1 1 = Some (((Engine default_Config :: unit engine)
       \<lparr>en_inputBuffer := \<lparr>rb_buffer = [1, 2, 0], rb_capacity = 2, rb_writePos = 2,
                            rb_readPos = 0\<rparr>\<rparr>), [3]) \<and>
   availableWrite (en_inputBuffer ((Engine default_Config :: unit engine)
       \<lparr>en_inputBuffer := \<lparr>rb_buffer = [1, 2, 0], rb_capacity = 2, rb_writePos = 2,
                            rb_readPos = 0\<rparr>\<rparr>)) < length [3 :: real] \<and>
   (\<exists>e'. onAudioCaptured ((Engine default_Config :: unit engine)
       \<lparr>en_inputBuffer := \<lparr>rb_buffer = [1, 2, 0], rb_capacity = 2, rb_writePos = 2,
                            rb_readPos = 0\<rparr>\<rparr>) [3] 1 48000 1 = Some e' \<and>
      rb_readPos (en_inputBuffer e') = 0 \<and> rb_contents (en_inputBuffer e') = [1, 2] \<and>
      st_bufferUnderruns (en_status e') = 0)"
proof -
  let ?e = "((Engine default_Config :: unit engine)
       \<lparr>en_inputBuffer := \<lparr>rb_buffer = [1, 2, 0], rb_capacity = 2, rb_writePos = 2,
                            rb_readPos = 0\<rparr>\<rparr>)"
  have h1: "rb_inv (en_inputBuffer ?e)" by (simp add: rb_inv_def)
  have h2: "capture_convert ?e [3] 1 1 = Some (?e, [3])"
    by (simp add: capture_convert_def downmix_def vread_def Engine_def)
  have h3: "availableWrite (en_inputBuffer ?e) < length [3 :: real]"
    by (simp add: availableWrite_def)
  from C6_overflow_keeps_oldest [OF h1 h2 h3, of 48000]
  obtain e' where "onAudioCaptured ?e [3] 1 48000 1 = Some e'"
    "rb_readPos (en_inputBuffer e') = rb_readPos (en_inputBuffer ?e)"
    "rb_contents (en_inputBuffer e') =
       rb_contents (en_inputBuffer ?e) @ take (availableWrite (en_inputBuffer ?e)) [3]"
    "en_status e' = en_status ?e" by blast
  then have "onAudioCaptured ?e [3] 1 48000 1 = Some e' \<and>
      rb_readPos (en_inputBuffer e') = 0 \<and> rb_contents (en_inputBuffer e') = [1, 2] \<and>
      st_bufferUnderruns (en_status e') = 0"
    by (simp add: rb_contents_def availableWrite_def Engine_def)
  with h1 h2 h3 show ?thesis by blast
qed

text \<open>
  C6 as stated fails: after a first callback has filled the input ring of a new engine
  with 7680 samples of value 1, a second callback delivering the sample 2 returns with
  the read position still 0, the ring still holding the 7680 ones (the new sample is
  the one that is lost) and the counter still 0.
\<close>

theorem C6_counterexample:
  "run_callbacks (Engine default_Config :: unit engine)
     [(replicate 7680 1, 7680, 48000, 1), ([2], 1, 48000, 1)] \<noteq> None \<and>
   rb_readPos (en_inputBuffer (the (run_callbacks (Engine default_Config :: unit engine)
     [(replicate 7680 1, 7680, 48000, 1), ([2], 1, 48000, 1)]))) = 0 \<and>
   rb_contents (en_inputBuffer (the (run_callbacks (Engine default_Config :: unit engine)
     [(replicate 7680 1, 7680, 48000, 1), ([2], 1, 48000, 1)]))) = replicate 7680 1 \<and>
   st_bufferUnderruns (en_status (the (run_callbacks (Engine default_Config :: unit engine)
     [(replicate 7680 1, 7680, 48000, 1), ([2], 1, 48000, 1)]))) = 0"
  by (simp add: onAudioCaptured_def capture_convert_def downmix_def vread_def Engine_def
      LockFreeRingBuffer_def BUFFER_SIZE_def PROCESSING_BLOCK_SIZE_def rb_write_def
      availableWrite_def vcopy_def rb_contents_def Let_def)

lemma initializeCapture_log: "ad_captureInit ad \<Longrightarrow>
   fst (initializeCapture ad e) \<and> snd (snd (initializeCapture ad e)) = []"
  by (simp add: initializeCapture_def)

lemma initializeRender_log: "ad_renderInit ad \<Longrightarrow>
   fst (initializeRender ad e) \<and> snd (snd (initializeRender ad e)) = []"
  by (simp add: initializeRender_def ad_renderInit_def)

lemma initializeProcessors_fail:
  "ad_rnnoiseCreate ad = None \<Longrightarrow>
   initializeProcessors ad e =
     (False, e\<lparr>en_rnnoise := Some (RNNoiseProcessor\<lparr>rn_state := None\<rparr>)\<rparr>,
      [''Failed to create RNNoise state'', ''Failed to initialize RNNoise''])"
  by (simp add: initializeProcessors_def rn_initialize_def Let_def)

text \<open>
  C7, as the code has it. When \<open>rnnoise_create\<close> fails, \<open>initialize\<close> returns false. If
  capture and render were initialised, the failure is written to the error stream in
  three lines and the engine is left with a denoiser whose state is null. A denoiser
  with a null state leaves every buffer, and itself, unchanged.
\<close>

theorem C7_denoiser_unavailable:
  assumes "ad_rnnoiseCreate ad = None"
  shows "\<not> fst (initialize ad e) \<and>
         (ad_captureInit ad \<and> ad_renderInit ad \<longrightarrow>
            snd (snd (initialize ad e)) =
              [''Failed to create RNNoise state'', ''Failed to initialize RNNoise'',
               ''Failed to initialize audio processors''] \<and>
            map_option rn_state (en_rnnoise (fst (snd (initialize ad e)))) = Some None) \<and>
         (rn_state p = None \<longrightarrow> rn_process infer p buffer = Some (p, buffer))"
proof -
  have a: "\<not> fst (initialize ad e)"
    using assms
    by (simp add: initialize_def initializeProcessors_fail Let_def split: prod.splits)
  have b: "snd (snd (initialize ad e)) =
              [''Failed to create RNNoise state'', ''Failed to initialize RNNoise'',
               ''Failed to initialize audio processors''] \<and>
            map_option rn_state (en_rnnoise (fst (snd (initialize ad e)))) = Some None"
    if "ad_captureInit ad" "ad_renderInit ad"
    using assms initializeCapture_log [OF that(1), of e] that
    by (auto simp: initialize_def initializeProcessors_fail initializeRender_def ad_renderInit_def
        Let_def split: prod.splits)
  have c: "rn_state p = None \<longrightarrow> rn_process infer p buffer = Some (p, buffer)"
    by (simp add: rn_process_def)
  from a b c show ?thesis by blast
qed

theorem C7_denoiser_unavailable_witness:
  "ad_rnnoiseCreate \<lparr>ad_captureInit = True, ad_captureRate = 48000, ad_renderDevice = True,
      ad_renderOpen = True,
      ad_renderRate = 48000, ad_rnnoiseCreate = (None :: unit option), ad_ipcStart = True\<rparr> = None \<and>
   \<not> fst (initialize \<lparr>ad_captureInit = True, ad_captureRate = 48000, ad_renderDevice = True,
      ad_renderOpen = True,
      ad_renderRate = 48000, ad_rnnoiseCreate = (None :: unit option), ad_ipcStart = True\<rparr> (Engine default_Config)) \<and>
   ad_captureInit \<lparr>ad_captureInit = True, ad_captureRate = 48000, ad_renderDevice = True,
      ad_renderOpen = True,
      ad_renderRate = 48000, ad_rnnoiseCreate = (None :: unit option), ad_ipcStart = True\<rparr> \<and> ad_renderInit \<lparr>ad_captureInit = True, ad_captureRate = 48000, ad_renderDevice = True,
      ad_renderOpen = True,
      ad_renderRate = 48000, ad_rnnoiseCreate = (None :: unit option), ad_ipcStart = True\<rparr> \<and>
   snd (snd (initialize \<lparr>ad_captureInit = True, ad_captureRate = 48000, ad_renderDevice = True,
      ad_renderOpen = True,
      ad_renderRate = 48000, ad_rnnoiseCreate = (None :: unit option), ad_ipcStart = True\<rparr> (Engine default_Config))) =
     [''Failed to create RNNoise state'', ''Failed to initialize RNNoise'',
      ''Failed to initialize audio processors''] \<and>
   rn_state (RNNoiseProcessor :: unit rnnoise) = None \<and>
   rn_process (\<lambda>st frame. (st, 0, \<lambda>i. 0)) (RNNoiseProcessor :: unit rnnoise) [1, 2] =
     Some (RNNoiseProcessor, [1, 2])"
proof -
  let ?ad = "\<lparr>ad_captureInit = True, ad_captureRate = 48000, ad_renderDevice = True,
      ad_renderOpen = True,
      ad_renderRate = 48000, ad_rnnoiseCreate = (None :: unit option), ad_ipcStart = True\<rparr>"
  have h: "ad_rnnoiseCreate ?ad = None" by simp
  have c: "ad_captureInit ?ad \<and> ad_renderInit ?ad" by (simp add: ad_renderInit_def)
  have n: "rn_state (RNNoiseProcessor :: unit rnnoise) = None" by (simp add: RNNoiseProcessor_def)
  from C7_denoiser_unavailable [OF h, of "Engine default_Config" RNNoiseProcessor
      "\<lambda>st frame. (st, 0, \<lambda>i. 0)" "[1, 2]"] h c n
  show ?thesis by blast
qed

text \<open>
  C7 as stated fails: with capture, render and the pipe server available and
  \<open>rnnoise_create\<close> returning null, \<open>initialize\<close> returns false.
\<close>

theorem C7_counterexample:
  "fst (initialize \<lparr>ad_captureInit = True, ad_captureRate = 48000, ad_renderDevice = True,
      ad_renderOpen = True,
      ad_renderRate = 48000, ad_rnnoiseCreate = (None :: unit option), ad_ipcStart = True\<rparr>
         (Engine default_Config :: unit engine)) = False"
  by (simp add: initialize_def initializeCapture_def initializeRender_def
      initializeProcessors_fail INTERNAL_SAMPLE_RATE_def Let_def)

lemma mt_loop_Some:
  "pos < length buf \<Longrightarrow>
   \<exists>buf' pos' pk sm. mt_loop buf pos bp bs xs = Some (buf', pos', pk, sm) \<and>
      length buf' = length buf \<and> pos' < length buf"
proof (induction xs arbitrary: buf pos bp bs)
  case Nil
  then show ?case by simp
next
  case (Cons x xs)
  from Cons.prems have "0 < length buf" by arith
  then have "(pos + 1) mod length buf < length (buf[pos := x * x])"
    by simp
  from Cons.IH [OF this] Cons.prems show ?case by (simp add: Let_def)
qed

lemma meter_Some: "mt_ok m \<Longrightarrow> \<exists>m'. meter m buffer = Some m' \<and> mt_ok m'"
proof (cases m)
  case None
  then show ?thesis by (simp add: meter_def mt_ok_def)
next
  case (Some m0)
  assume "mt_ok m"
  with Some have "mt_lufsPos m0 < length (mt_lufsBuffer m0)" by (simp add: mt_ok_def)
  from mt_loop_Some [OF this, of 0 0 buffer]
  obtain buf' pos' pk sm where
    "mt_loop (mt_lufsBuffer m0) (mt_lufsPos m0) 0 0 buffer = Some (buf', pos', pk, sm)"
    "length buf' = length (mt_lufsBuffer m0)" "pos' < length (mt_lufsBuffer m0)" by blast
  with Some show ?thesis by (simp add: meter_def mt_process_def mt_ok_def Let_def)
qed

lemma processAudioBlock_bypass:
  assumes "en_bypass e" "mt_ok (en_inputMetering e)" "mt_ok (en_outputMetering e)"
  shows "\<exists>im om. processAudioBlock infer e buffer =
           Some (e\<lparr>en_inputMetering := im, en_outputMetering := om\<rparr>, buffer) \<and> mt_ok im \<and> mt_ok om"
proof -
  from meter_Some [OF assms(2)] obtain im where im: "meter (en_inputMetering e) buffer = Some im" "mt_ok im"
    by blast
  from meter_Some [OF assms(3)] obtain om where om: "meter (en_outputMetering e) buffer = Some om" "mt_ok om"
    by blast
  from im om assms(1) have "processAudioBlock infer e buffer =
           Some (e\<lparr>en_inputMetering := im, en_outputMetering := om\<rparr>, buffer)"
    by (simp add: processAudioBlock_def)
  with im(2) om(2) show ?thesis by blast
qed

lemma vcopy_whole: "length src = length dst \<Longrightarrow> vcopy src dst 0 = Some src"
  by (simp add: vcopy_def)

lemma vread_whole: "n = length v \<Longrightarrow> vread v 0 n = Some v"
  by (simp add: vread_def)

lemma PROCESSING_BLOCK_SIZE_pos: "0 < PROCESSING_BLOCK_SIZE"
  by (simp add: PROCESSING_BLOCK_SIZE_def)

lemma availableWrite_contents:
  "rb_inv rb \<Longrightarrow> availableWrite rb + length (rb_contents rb) = rb_capacity rb"
  by (auto simp: length_rb_contents availableWrite_inv availableRead_inv rb_inv_def)

lemma whole_blocks_short: "length s < PROCESSING_BLOCK_SIZE \<Longrightarrow> whole_blocks s = []"
  by (simp add: whole_blocks_def)

lemma whole_blocks_step:
  assumes "PROCESSING_BLOCK_SIZE \<le> length s"
  shows "whole_blocks s = take PROCESSING_BLOCK_SIZE s @ whole_blocks (drop PROCESSING_BLOCK_SIZE s)"
    and "drop (length (whole_blocks s)) s =
         drop (length (whole_blocks (drop PROCESSING_BLOCK_SIZE s))) (drop PROCESSING_BLOCK_SIZE s)"
proof -
  let ?B = PROCESSING_BLOCK_SIZE
  have d: "length s div ?B = Suc ((length s - ?B) div ?B)"
    using assms PROCESSING_BLOCK_SIZE_pos by (simp add: le_div_geq)
  have m: "?B * (length s div ?B) = ?B + ?B * ((length s - ?B) div ?B)"
    by (simp add: d)
  show w: "whole_blocks s = take ?B s @ whole_blocks (drop ?B s)"
    unfolding whole_blocks_def by (simp only: m take_add length_drop)
  have le: "?B * ((length s - ?B) div ?B) \<le> length s - ?B" by simp
  have l1: "length (whole_blocks s) = ?B + ?B * ((length s - ?B) div ?B)"
  proof -
    have "?B + ?B * ((length s - ?B) div ?B) \<le> length s" using assms le by linarith
    then show ?thesis unfolding whole_blocks_def by (simp add: m min_absorb2)
  qed
  have l2: "length (whole_blocks (drop ?B s)) = ?B * ((length s - ?B) div ?B)"
    unfolding whole_blocks_def using le by simp
  show "drop (length (whole_blocks s)) s =
        drop (length (whole_blocks (drop ?B s))) (drop ?B s)"
    by (simp only: l1 l2 drop_drop add.commute)
qed

lemma whole_blocks_rest: "length (drop (length (whole_blocks s)) s) < PROCESSING_BLOCK_SIZE"
proof -
  let ?B = PROCESSING_BLOCK_SIZE
  have "length (whole_blocks s) = ?B * (length s div ?B)"
    by (simp add: whole_blocks_def)
  then have "length (drop (length (whole_blocks s)) s) = length s mod ?B"
    by (simp add: minus_mult_div_eq_mod)
  then show ?thesis using PROCESSING_BLOCK_SIZE_pos by simp
qed

lemma whole_blocks_append:
  "whole_blocks (drop (length (whole_blocks s)) s @ t) = u \<Longrightarrow>
   whole_blocks (s @ t) = whole_blocks s @ u"
  "drop (length (whole_blocks (s @ t))) (s @ t) =
   drop (length (whole_blocks (drop (length (whole_blocks s)) s @ t)))
     (drop (length (whole_blocks s)) s @ t)"
proof -
  let ?B = PROCESSING_BLOCK_SIZE
  define k where "k = length s div ?B"
  define r where "r = drop (?B * k) s"
  have lw: "length (whole_blocks s) = ?B * k" by (simp add: whole_blocks_def k_def)
  have ws: "whole_blocks s = take (?B * k) s" by (simp add: whole_blocks_def k_def)
  have s: "s = take (?B * k) s @ r" by (simp add: r_def)
  have lr: "length r = length s - ?B * k" by (simp add: r_def)
  have kl: "?B * k \<le> length s" by (simp add: k_def)
  have dv: "length (s @ t) div ?B = k + length (r @ t) div ?B"
  proof -
    have "length (s @ t) = ?B * k + length (r @ t)" using kl lr by simp
    moreover have "(?B * k + length (r @ t)) div ?B = k + length (r @ t) div ?B"
      using PROCESSING_BLOCK_SIZE_pos by (intro div_mult_self4) simp
    ultimately show ?thesis by (simp only:)
  qed
  have tk: "take (?B * k + n) (s @ t) = take (?B * k) s @ take n (r @ t)" for n
  proof -
    have "take (?B * k + n) (s @ t) = take (?B * k) (s @ t) @ take n (drop (?B * k) (s @ t))"
      by (rule take_add)
    also have "take (?B * k) (s @ t) = take (?B * k) s" using kl by simp
    also have "drop (?B * k) (s @ t) = r @ t" using kl by (simp add: r_def)
    finally show ?thesis .
  qed
  have wst: "whole_blocks (s @ t) = whole_blocks s @ whole_blocks (r @ t)"
    unfolding whole_blocks_def [of "s @ t"] dv
    by (simp only: distrib_left tk) (simp add: whole_blocks_def k_def)
  show "whole_blocks (drop (length (whole_blocks s)) s @ t) = u \<Longrightarrow>
        whole_blocks (s @ t) = whole_blocks s @ u"
    using wst by (simp add: lw r_def)
  have "drop (length (whole_blocks (s @ t))) (s @ t) =
        drop (length (whole_blocks (r @ t))) (drop (?B * k) (s @ t))"
    by (simp only: wst length_append lw drop_drop add.commute)
  also have "drop (?B * k) (s @ t) = r @ t" using kl by (simp add: r_def)
  finally show "drop (length (whole_blocks (s @ t))) (s @ t) =
   drop (length (whole_blocks (drop (length (whole_blocks s)) s @ t)))
     (drop (length (whole_blocks s)) s @ t)"
    by (simp add: lw r_def)
qed


lemma processBlock_bypass:
  assumes r: "bypass_ready e"
    and av: "PROCESSING_BLOCK_SIZE \<le> length (rb_contents (en_inputBuffer e))"
  shows "\<exists>e'. processBlock infer True e = Some e' \<and> bypass_ready e' \<and>
           en_rendered e' =
             en_rendered e @ take PROCESSING_BLOCK_SIZE (rb_contents (en_inputBuffer e)) \<and>
           rb_contents (en_inputBuffer e') =
             drop PROCESSING_BLOCK_SIZE (rb_contents (en_inputBuffer e)) \<and>
           rb_capacity (en_inputBuffer e') = rb_capacity (en_inputBuffer e)"
proof -
  from r have byp: "en_bypass e" and mi: "mt_ok (en_inputMetering e)"
    and mo: "mt_ok (en_outputMetering e)"
    and ri: "rb_inv (en_inputBuffer e)" and ro: "rb_inv (en_outputBuffer e)"
    and pb: "length (en_processingBuffer e) = PROCESSING_BLOCK_SIZE"
    and nors: "en_inputResampler e = None" "en_outputResampler e = None"
    by (simp_all add: bypass_ready_def)
  define block where "block = take PROCESSING_BLOCK_SIZE (rb_contents (en_inputBuffer e))"
  have lb: "length block = PROCESSING_BLOCK_SIZE"
    using av by (simp add: block_def)
  have av': "PROCESSING_BLOCK_SIZE \<le> availableRead (en_inputBuffer e)"
    using av length_rb_contents [OF ri] by simp
  from rb_read_spec [OF ri, of PROCESSING_BLOCK_SIZE]
  obtain rb where rd: "rb_read (en_inputBuffer e) PROCESSING_BLOCK_SIZE = Some (rb, block)"
    and rb: "rb_inv rb" "rb_capacity rb = rb_capacity (en_inputBuffer e)"
      "rb_contents rb = drop PROCESSING_BLOCK_SIZE (rb_contents (en_inputBuffer e))"
    by (auto simp: block_def)
  define e0 where "e0 = e\<lparr>en_inputBuffer := rb\<rparr>"
  have "en_bypass e0" "mt_ok (en_inputMetering e0)" "mt_ok (en_outputMetering e0)"
    using byp mi mo by (simp_all add: e0_def)
  from processAudioBlock_bypass [OF this, of infer block]
  obtain im om where pa: "processAudioBlock infer e0 block =
       Some (e0\<lparr>en_inputMetering := im, en_outputMetering := om\<rparr>, block)"
    and ms: "mt_ok im" "mt_ok om" by blast
  define e1 where "e1 = e0\<lparr>en_inputMetering := im, en_outputMetering := om\<rparr>"
  have "rb_inv (en_outputBuffer e1)" using ro by (simp add: e1_def e0_def)
  from rb_write_spec [OF this, of block]
  obtain ob n where wr: "rb_write (en_outputBuffer e1) block = Some (ob, n)"
    and ob: "rb_inv ob" by blast
  have c1: "vcopy block (en_processingBuffer e) 0 = Some block"
    using lb pb by (simp add: vcopy_whole)
  have c2: "vread block 0 PROCESSING_BLOCK_SIZE = Some block"
    using lb by (simp add: vread_whole)
  have c3: "vcopy block block 0 = Some block" by (simp add: vcopy_whole)
  define e' where "e' = e1\<lparr>en_outputBuffer := ob, en_processingBuffer := block,
                           en_rendered := en_rendered e @ block\<rparr>"
  have "processBlock infer True e = Some e'"
    using av' rd c1 c2 c3 pa wr nors
    by (simp add: processBlock_def e0_def [symmetric] e1_def [symmetric])
       (simp add: e'_def e1_def e0_def)
  moreover have "bypass_ready e'"
    using byp ms rb(1) ob lb nors by (simp add: bypass_ready_def e'_def e1_def e0_def)
  moreover have "en_rendered e' = en_rendered e @ block"
    "en_inputBuffer e' = rb"
    by (simp_all add: e'_def e1_def e0_def)
  ultimately show ?thesis using rb by (simp add: block_def)
qed

lemma processAvailable_bypass:
  "bypass_ready e \<Longrightarrow>
   \<exists>e'. processAvailable infer True e = Some e' \<and> bypass_ready e' \<and>
        en_rendered e' = en_rendered e @ whole_blocks (rb_contents (en_inputBuffer e)) \<and>
        rb_contents (en_inputBuffer e') =
          drop (length (whole_blocks (rb_contents (en_inputBuffer e))))
            (rb_contents (en_inputBuffer e)) \<and>
        rb_capacity (en_inputBuffer e') = rb_capacity (en_inputBuffer e)"
proof (induction "length (rb_contents (en_inputBuffer e))" arbitrary: e rule: less_induct)
  case less
  let ?c = "rb_contents (en_inputBuffer e)"
  from less.prems have ri: "rb_inv (en_inputBuffer e)" by (simp add: bypass_ready_def)
  note len = length_rb_contents [OF ri]
  show ?case
  proof (cases "PROCESSING_BLOCK_SIZE \<le> length ?c")
    case False
    then have "processAvailable infer True e = Some e"
      using len by (subst processAvailable.simps) simp
    with False less.prems show ?thesis by (simp add: whole_blocks_short)
  next
    case True
    from processBlock_bypass [OF less.prems True, of infer]
    obtain e1 where e1: "processBlock infer True e = Some e1" "bypass_ready e1"
      "en_rendered e1 = en_rendered e @ take PROCESSING_BLOCK_SIZE ?c"
      "rb_contents (en_inputBuffer e1) = drop PROCESSING_BLOCK_SIZE ?c"
      "rb_capacity (en_inputBuffer e1) = rb_capacity (en_inputBuffer e)"
      by blast
    have "length (rb_contents (en_inputBuffer e1)) < length ?c"
      using True PROCESSING_BLOCK_SIZE_pos by (simp add: e1(4))
    from less.hyps [OF this e1(2)]
    obtain e' where e': "processAvailable infer True e1 = Some e'" "bypass_ready e'"
      "en_rendered e' = en_rendered e1 @ whole_blocks (drop PROCESSING_BLOCK_SIZE ?c)"
      "rb_contents (en_inputBuffer e') =
         drop (length (whole_blocks (drop PROCESSING_BLOCK_SIZE ?c)))
           (drop PROCESSING_BLOCK_SIZE ?c)"
      "rb_capacity (en_inputBuffer e') = rb_capacity (en_inputBuffer e1)"
      unfolding e1(4) by blast
    have "processAvailable infer True e = Some e'"
      using True len e1(1) e'(1) by (subst processAvailable.simps) simp
    moreover have "en_rendered e' = en_rendered e @ whole_blocks ?c"
      by (simp only: e'(3) e1(3) whole_blocks_step(1) [OF True] append_assoc)
    moreover have "rb_contents (en_inputBuffer e') = drop (length (whole_blocks ?c)) ?c"
      by (simp only: e'(4) whole_blocks_step(2) [OF True])
    ultimately show ?thesis using e'(2,5) e1(5) by simp
  qed
qed

lemma onAudioCaptured_fits:
  assumes r: "bypass_ready e" and d: "downmix buffer frames channels = Some mn"
    and fits: "length (rb_contents (en_inputBuffer e)) + length mn \<le> rb_capacity (en_inputBuffer e)"
  shows "\<exists>e'. onAudioCaptured e buffer frames sampleRate channels = Some e' \<and> bypass_ready e' \<and>
           en_rendered e' = en_rendered e \<and>
           rb_contents (en_inputBuffer e') = rb_contents (en_inputBuffer e) @ mn \<and>
           rb_capacity (en_inputBuffer e') = rb_capacity (en_inputBuffer e)"
proof -
  from r have ri: "rb_inv (en_inputBuffer e)" and nors: "en_inputResampler e = None"
    by (simp_all add: bypass_ready_def)
  have cc: "capture_convert e buffer frames channels = Some (e, mn)"
    using d nors by (simp add: capture_convert_def)
  have "length mn \<le> availableWrite (en_inputBuffer e)"
    using availableWrite_contents [OF ri] fits by simp
  with rb_write_spec [OF ri, of mn]
  obtain rb n where w: "rb_write (en_inputBuffer e) mn = Some (rb, n)" "rb_inv rb"
    "rb_capacity rb = rb_capacity (en_inputBuffer e)"
    "rb_contents rb = rb_contents (en_inputBuffer e) @ mn"
    by auto
  have "onAudioCaptured e buffer frames sampleRate channels = Some (e\<lparr>en_inputBuffer := rb\<rparr>)"
    using cc w(1) by (simp add: onAudioCaptured_def)
  moreover have "bypass_ready (e\<lparr>en_inputBuffer := rb\<rparr>)"
    using r w(2) by (simp add: bypass_ready_def)
  ultimately show ?thesis using w(3,4) by simp
qed

lemma pipeline_bypass:
  "bypass_ready e \<Longrightarrow> length (rb_contents (en_inputBuffer e)) < PROCESSING_BLOCK_SIZE \<Longrightarrow>
   those (map (\<lambda>(buffer, frames, sampleRate, channels). downmix buffer frames channels) cbs) =
     Some captured \<Longrightarrow>
   list_all (\<lambda>m. length m + PROCESSING_BLOCK_SIZE \<le> rb_capacity (en_inputBuffer e) + 1) captured \<Longrightarrow>
   \<exists>e'. pipeline infer True e cbs = Some e' \<and>
        en_rendered e' =
          en_rendered e @ whole_blocks (rb_contents (en_inputBuffer e) @ concat captured) \<and>
        rb_contents (en_inputBuffer e') =
          drop (length (whole_blocks (rb_contents (en_inputBuffer e) @ concat captured)))
            (rb_contents (en_inputBuffer e) @ concat captured)"
proof (induction cbs arbitrary: e captured)
  case Nil
  then show ?case by (simp add: whole_blocks_short)
next
  case (Cons cb cbs)
  obtain buffer frames sampleRate channels where cb: "cb = (buffer, frames, sampleRate, channels)"
    by (cases cb) auto
  let ?c = "rb_contents (en_inputBuffer e)"
  from Cons.prems(3) obtain mn rest where m: "downmix buffer frames channels = Some mn"
    "those (map (\<lambda>(buffer, frames, sampleRate, channels). downmix buffer frames channels) cbs) =
       Some rest" "captured = mn # rest"
    by (auto simp: cb split: option.splits)
  from Cons.prems(4) m(3)
  have f: "length mn + PROCESSING_BLOCK_SIZE \<le> rb_capacity (en_inputBuffer e) + 1"
    "list_all (\<lambda>m. length m + PROCESSING_BLOCK_SIZE \<le> rb_capacity (en_inputBuffer e) + 1) rest"
    by simp_all
  have "length ?c + length mn \<le> rb_capacity (en_inputBuffer e)"
    using f(1) Cons.prems(2) by simp
  from onAudioCaptured_fits [OF Cons.prems(1) m(1) this, of sampleRate]
  obtain e1 where e1: "onAudioCaptured e buffer frames sampleRate channels = Some e1"
    "bypass_ready e1" "en_rendered e1 = en_rendered e"
    "rb_contents (en_inputBuffer e1) = ?c @ mn"
    "rb_capacity (en_inputBuffer e1) = rb_capacity (en_inputBuffer e)"
    by blast
  from processAvailable_bypass [OF e1(2), of infer]
  obtain e2 where e2: "processAvailable infer True e1 = Some e2" "bypass_ready e2"
    "en_rendered e2 = en_rendered e @ whole_blocks (?c @ mn)"
    "rb_contents (en_inputBuffer e2) = drop (length (whole_blocks (?c @ mn))) (?c @ mn)"
    "rb_capacity (en_inputBuffer e2) = rb_capacity (en_inputBuffer e)"
    unfolding e1(3,4,5) by blast
  have short: "length (rb_contents (en_inputBuffer e2)) < PROCESSING_BLOCK_SIZE"
    unfolding e2(4) by (rule whole_blocks_rest)
  have f2: "list_all (\<lambda>m. length m + PROCESSING_BLOCK_SIZE \<le> rb_capacity (en_inputBuffer e2) + 1) rest"
    using f(2) by (simp only: e2(5))
  from Cons.IH [OF e2(2) short m(2) f2]
  obtain e' where e': "pipeline infer True e2 cbs = Some e'"
    "en_rendered e' =
       en_rendered e2 @ whole_blocks (rb_contents (en_inputBuffer e2) @ concat rest)"
    "rb_contents (en_inputBuffer e') =
       drop (length (whole_blocks (rb_contents (en_inputBuffer e2) @ concat rest)))
         (rb_contents (en_inputBuffer e2) @ concat rest)"
    by blast
  have p: "pipeline infer True e (cb # cbs) = Some e'"
    using e1(1) e2(1) e'(1) by (simp add: cb)
  have s: "?c @ concat captured = (?c @ mn) @ concat rest" by (simp add: m(3))
  have w: "whole_blocks ((?c @ mn) @ concat rest) =
           whole_blocks (?c @ mn) @ whole_blocks (rb_contents (en_inputBuffer e2) @ concat rest)"
    unfolding e2(4) by (rule whole_blocks_append(1) [OF refl])
  have d: "drop (length (whole_blocks ((?c @ mn) @ concat rest))) ((?c @ mn) @ concat rest) =
           drop (length (whole_blocks (rb_contents (en_inputBuffer e2) @ concat rest)))
             (rb_contents (en_inputBuffer e2) @ concat rest)"
    unfolding e2(4) by (rule whole_blocks_append(2))
  have "en_rendered e' = en_rendered e @ whole_blocks (?c @ concat captured)"
    unfolding s w by (simp only: e'(2) e2(3) append_assoc)
  moreover have "rb_contents (en_inputBuffer e') =
      drop (length (whole_blocks (?c @ concat captured))) (?c @ concat captured)"
    unfolding s d by (rule e'(3))
  ultimately show ?case using p by simp
qed


lemma LockFreeRingBuffer_empty:
  "rb_inv (LockFreeRingBuffer n)" "rb_contents (LockFreeRingBuffer n) = []"
  "rb_capacity (LockFreeRingBuffer n) = n"
  by (simp_all add: rb_inv_def rb_contents_def LockFreeRingBuffer_def)

lemma mt_ok_Metering: "mt_ok (Some Metering)"
  by (simp add: mt_ok_def Metering_def setPeakDecay_def LUFS_WINDOW_SAMPLES_def Let_def)

lemma initialize_matched:
  assumes "ad_captureInit ad" "ad_renderInit ad" "ad_captureRate ad = INTERNAL_SAMPLE_RATE"
    "ad_renderRate ad = INTERNAL_SAMPLE_RATE" "ad_rnnoiseCreate ad = Some st" "ad_ipcStart ad"
  shows "initialize ad (Engine config) =
     (True,
      (Engine config)
        \<lparr>en_rnnoise := Some (setAttenuation (cfg_rnnoise_attenuation config)
                              (fst (snd (rn_initialize (Some st) RNNoiseProcessor)))),
         en_expander := Some (configured_expander (cfg_expander config)),
         en_compressor := Some (configured_compressor (cfg_compressor config)),
         en_limiter := Some (configured_limiter (cfg_limiter config)),
         en_equalizer := Some (configured_equalizer (cfg_equalizer config)),
         en_inputMetering := Some Metering, en_outputMetering := Some Metering\<rparr>, [])"
  using assms
  by (simp add: initialize_def initializeCapture_def initializeRender_def ad_renderInit_def
      initializeProcessors_def rn_initialize_def Let_def Engine_def)

lemma initialize_bypass_ready:
  fixes config :: Config and ad :: "'st adapters"
  assumes "ad_captureInit ad" "ad_renderInit ad" "ad_captureRate ad = INTERNAL_SAMPLE_RATE"
    "ad_renderRate ad = INTERNAL_SAMPLE_RATE" "ad_rnnoiseCreate ad = Some st" "ad_ipcStart ad"
  defines "e \<equiv> setBypass True (fst (snd (initialize ad (Engine config))))"
  shows "bypass_ready e" "rb_contents (en_inputBuffer e) = []"
    "rb_capacity (en_inputBuffer e) = BUFFER_SIZE" "en_rendered e = []"
    "en_rnnoise e \<noteq> None" "en_expander e \<noteq> None" "en_compressor e \<noteq> None"
    "en_limiter e \<noteq> None" "en_equalizer e \<noteq> None"
  unfolding e_def initialize_matched [OF assms(1-6)]
  by (simp_all add: bypass_ready_def setBypass_def Engine_def mt_ok_Metering
      LockFreeRingBuffer_empty)


text \<open>
  C9. With bypass on, \<open>processAudioBlock\<close> returns the buffer it was given and changes
  nothing in the engine but the two meters: the denoiser and the four DSP units are
  left as they were. With no resampler on either side (the device rates are the
  internal rate), the samples handed to the render adapter are the captured samples
  themselves, in order: after any sequence of capture callbacks, each followed by the
  processing loop and none larger than the free space of the input ring, the rendered
  stream has grown by the whole blocks of the captured stream (after the downmix of a
  stereo callback) and the samples of the incomplete last block are still in the input
  ring.
\<close>

theorem C9_bypass_identity:
  assumes "en_bypass e" and "mt_ok (en_inputMetering e)" and "mt_ok (en_outputMetering e)"
  shows "(\<exists>e'. processAudioBlock infer e buffer = Some (e', buffer) \<and>
            en_rnnoise e' = en_rnnoise e \<and> en_expander e' = en_expander e \<and>
            en_equalizer e' = en_equalizer e \<and> en_compressor e' = en_compressor e \<and>
            en_limiter e' = en_limiter e) \<and>
         (rb_inv (en_inputBuffer e) \<and> rb_inv (en_outputBuffer e) \<and>
          length (en_processingBuffer e) = PROCESSING_BLOCK_SIZE \<and>
          en_inputResampler e = None \<and> en_outputResampler e = None \<and>
          length (rb_contents (en_inputBuffer e)) < PROCESSING_BLOCK_SIZE \<and>
          those (map (\<lambda>(buffer, frames, sampleRate, channels). downmix buffer frames channels)
                   cbs) = Some captured \<and>
          list_all (\<lambda>m. length m + PROCESSING_BLOCK_SIZE \<le> rb_capacity (en_inputBuffer e) + 1)
            captured \<longrightarrow>
          (\<exists>e'. pipeline infer True e cbs = Some e' \<and>
             en_rendered e' =
               en_rendered e @ whole_blocks (rb_contents (en_inputBuffer e) @ concat captured) \<and>
             rb_contents (en_inputBuffer e') =
               drop (length (whole_blocks (rb_contents (en_inputBuffer e) @ concat captured)))
                 (rb_contents (en_inputBuffer e) @ concat captured)))"
proof -
  from processAudioBlock_bypass [OF assms, of infer buffer]
  obtain im om where "processAudioBlock infer e buffer =
      Some (e\<lparr>en_inputMetering := im, en_outputMetering := om\<rparr>, buffer)" by blast
  then have a: "\<exists>e'. processAudioBlock infer e buffer = Some (e', buffer) \<and>
            en_rnnoise e' = en_rnnoise e \<and> en_expander e' = en_expander e \<and>
            en_equalizer e' = en_equalizer e \<and> en_compressor e' = en_compressor e \<and>
            en_limiter e' = en_limiter e" by simp
  have b: "\<exists>e'. pipeline infer True e cbs = Some e' \<and>
             en_rendered e' =
               en_rendered e @ whole_blocks (rb_contents (en_inputBuffer e) @ concat captured) \<and>
             rb_contents (en_inputBuffer e') =
               drop (length (whole_blocks (rb_contents (en_inputBuffer e) @ concat captured)))
                 (rb_contents (en_inputBuffer e) @ concat captured)"
    if "rb_inv (en_inputBuffer e)" "rb_inv (en_outputBuffer e)"
      "length (en_processingBuffer e) = PROCESSING_BLOCK_SIZE"
      "en_inputResampler e = None" "en_outputResampler e = None"
      "length (rb_contents (en_inputBuffer e)) < PROCESSING_BLOCK_SIZE"
      "those (map (\<lambda>(buffer, frames, sampleRate, channels). downmix buffer frames channels)
                cbs) = Some captured"
      "list_all (\<lambda>m. length m + PROCESSING_BLOCK_SIZE \<le> rb_capacity (en_inputBuffer e) + 1)
         captured"
  proof -
    have "bypass_ready e" using assms that(1-5) by (simp add: bypass_ready_def)
    from pipeline_bypass [OF this that(6-8)] show ?thesis .
  qed
  from a b show ?thesis by blast
qed

text \<open>
  On the engine initialised with all adapters available at 48000 Hz and the default
  configuration, where the denoiser and the four DSP units exist, then set to bypass:
  a callback of 300 samples of value 1 and one of 700 samples of value 2 give a
  rendered stream of 960 samples, the 300 ones and the first 660 twos, and leave 40
  samples in the input ring.
\<close>

theorem C9_bypass_identity_witness:
  "fst (initialize
          \<lparr>ad_captureInit = True, ad_captureRate = 48000, ad_renderDevice = True,
           ad_renderOpen = True, ad_renderRate = 48000, ad_rnnoiseCreate = Some (),
           ad_ipcStart = True\<rparr> (Engine default_Config)) \<and>
   en_bypass (setBypass True (fst (snd (initialize
          \<lparr>ad_captureInit = True, ad_captureRate = 48000, ad_renderDevice = True,
           ad_renderOpen = True, ad_renderRate = 48000, ad_rnnoiseCreate = Some (),
           ad_ipcStart = True\<rparr> (Engine default_Config))))) \<and> mt_ok (en_inputMetering (setBypass True (fst (snd (initialize
          \<lparr>ad_captureInit = True, ad_captureRate = 48000, ad_renderDevice = True,
           ad_renderOpen = True, ad_renderRate = 48000, ad_rnnoiseCreate = Some (),
           ad_ipcStart = True\<rparr> (Engine default_Config)))))) \<and> mt_ok (en_outputMetering (setBypass True (fst (snd (initialize
          \<lparr>ad_captureInit = True, ad_captureRate = 48000, ad_renderDevice = True,
           ad_renderOpen = True, ad_renderRate = 48000, ad_rnnoiseCreate = Some (),
           ad_ipcStart = True\<rparr> (Engine default_Config)))))) \<and>
   en_rnnoise (setBypass True (fst (snd (initialize
          \<lparr>ad_captureInit = True, ad_captureRate = 48000, ad_renderDevice = True,
           ad_renderOpen = True, ad_renderRate = 48000, ad_rnnoiseCreate = Some (),
           ad_ipcStart = True\<rparr> (Engine default_Config))))) \<noteq> None \<and> en_expander (setBypass True (fst (snd (initialize
          \<lparr>ad_captureInit = True, ad_captureRate = 48000, ad_renderDevice = True,
           ad_renderOpen = True, ad_renderRate = 48000, ad_rnnoiseCreate = Some (),
           ad_ipcStart = True\<rparr> (Engine default_Config))))) \<noteq> None \<and> en_equalizer (setBypass True (fst (snd (initialize
          \<lparr>ad_captureInit = True, ad_captureRate = 48000, ad_renderDevice = True,
           ad_renderOpen = True, ad_renderRate = 48000, ad_rnnoiseCreate = Some (),
           ad_ipcStart = True\<rparr> (Engine default_Config))))) \<noteq> None \<and>
   en_compressor (setBypass True (fst (snd (initialize
          \<lparr>ad_captureInit = True, ad_captureRate = 48000, ad_renderDevice = True,
           ad_renderOpen = True, ad_renderRate = 48000, ad_rnnoiseCreate = Some (),
           ad_ipcStart = True\<rparr> (Engine default_Config))))) \<noteq> None \<and> en_limiter (setBypass True (fst (snd (initialize
          \<lparr>ad_captureInit = True, ad_captureRate = 48000, ad_renderDevice = True,
           ad_renderOpen = True, ad_renderRate = 48000, ad_rnnoiseCreate = Some (),
           ad_ipcStart = True\<rparr> (Engine default_Config))))) \<noteq> None \<and>
   rb_inv (en_inputBuffer (setBypass True (fst (snd (initialize
          \<lparr>ad_captureInit = True, ad_captureRate = 48000, ad_renderDevice = True,
           ad_renderOpen = True, ad_renderRate = 48000, ad_rnnoiseCreate = Some (),
           ad_ipcStart = True\<rparr> (Engine default_Config)))))) \<and> rb_inv (en_outputBuffer (setBypass True (fst (snd (initialize
          \<lparr>ad_captureInit = True, ad_captureRate = 48000, ad_renderDevice = True,
           ad_renderOpen = True, ad_renderRate = 48000, ad_rnnoiseCreate = Some (),
           ad_ipcStart = True\<rparr> (Engine default_Config)))))) \<and>
   length (en_processingBuffer (setBypass True (fst (snd (initialize
          \<lparr>ad_captureInit = True, ad_captureRate = 48000, ad_renderDevice = True,
           ad_renderOpen = True, ad_renderRate = 48000, ad_rnnoiseCreate = Some (),
           ad_ipcStart = True\<rparr> (Engine default_Config)))))) = PROCESSING_BLOCK_SIZE \<and>
   en_inputResampler (setBypass True (fst (snd (initialize
          \<lparr>ad_captureInit = True, ad_captureRate = 48000, ad_renderDevice = True,
           ad_renderOpen = True, ad_renderRate = 48000, ad_rnnoiseCreate = Some (),
           ad_ipcStart = True\<rparr> (Engine default_Config))))) = None \<and> en_outputResampler (setBypass True (fst (snd (initialize
          \<lparr>ad_captureInit = True, ad_captureRate = 48000, ad_renderDevice = True,
           ad_renderOpen = True, ad_renderRate = 48000, ad_rnnoiseCreate = Some (),
           ad_ipcStart = True\<rparr> (Engine default_Config))))) = None \<and>
   length (rb_contents (en_inputBuffer (setBypass True (fst (snd (initialize
          \<lparr>ad_captureInit = True, ad_captureRate = 48000, ad_renderDevice = True,
           ad_renderOpen = True, ad_renderRate = 48000, ad_rnnoiseCreate = Some (),
           ad_ipcStart = True\<rparr> (Engine default_Config))))))) < PROCESSING_BLOCK_SIZE \<and>
   those (map (\<lambda>(buffer, frames, sampleRate, channels). downmix buffer frames channels)
            [(replicate 300 1, 300, 48000 :: int, 1), (replicate 700 2, 700, 48000, 1)]) = Some [replicate 300 1, replicate 700 2] \<and>
   list_all (\<lambda>m. length m + PROCESSING_BLOCK_SIZE \<le> rb_capacity (en_inputBuffer (setBypass True (fst (snd (initialize
          \<lparr>ad_captureInit = True, ad_captureRate = 48000, ad_renderDevice = True,
           ad_renderOpen = True, ad_renderRate = 48000, ad_rnnoiseCreate = Some (),
           ad_ipcStart = True\<rparr> (Engine default_Config)))))) + 1)
     [replicate 300 (1::real), replicate 700 2] \<and>
   (\<exists>e'. processAudioBlock (\<lambda>st frame. (st, 0, \<lambda>i. 0)) (setBypass True (fst (snd (initialize
          \<lparr>ad_captureInit = True, ad_captureRate = 48000, ad_renderDevice = True,
           ad_renderOpen = True, ad_renderRate = 48000, ad_rnnoiseCreate = Some (),
           ad_ipcStart = True\<rparr> (Engine default_Config))))) [1, 2] = Some (e', [1, 2])) \<and>
   (\<exists>e'. pipeline (\<lambda>st frame. (st, 0, \<lambda>i. 0)) True (setBypass True (fst (snd (initialize
          \<lparr>ad_captureInit = True, ad_captureRate = 48000, ad_renderDevice = True,
           ad_renderOpen = True, ad_renderRate = 48000, ad_rnnoiseCreate = Some (),
           ad_ipcStart = True\<rparr> (Engine default_Config))))) [(replicate 300 1, 300, 48000 :: int, 1), (replicate 700 2, 700, 48000, 1)] = Some e' \<and>
      en_rendered e' = replicate 300 1 @ replicate 660 2 \<and>
      rb_contents (en_inputBuffer e') = replicate 40 2)"
proof -
  let ?ad = "\<lparr>ad_captureInit = True, ad_captureRate = 48000, ad_renderDevice = True,
           ad_renderOpen = True, ad_renderRate = 48000, ad_rnnoiseCreate = Some (),
           ad_ipcStart = True\<rparr>"
  let ?e = "setBypass True (fst (snd (initialize ?ad (Engine default_Config))))"
  let ?cbs = "[(replicate 300 1, 300, 48000 :: int, 1), (replicate 700 2, 700, 48000, 1)] :: (real list \<times> nat \<times> int \<times> int) list"
  let ?infer = "\<lambda>(st::unit) (frame::real list). (st, 0::real, \<lambda>i::nat. 0::real)"
  have ad: "ad_captureInit ?ad" "ad_renderInit ?ad" "ad_captureRate ?ad = INTERNAL_SAMPLE_RATE"
    "ad_renderRate ?ad = INTERNAL_SAMPLE_RATE" "ad_rnnoiseCreate ?ad = Some ()" "ad_ipcStart ?ad"
    by (simp_all add: ad_renderInit_def INTERNAL_SAMPLE_RATE_def)
  have ok: "fst (initialize ?ad (Engine default_Config))"
    by (simp add: initialize_matched [OF ad])
  note r = initialize_bypass_ready [OF ad, of default_Config]
  have h: "en_bypass ?e" "mt_ok (en_inputMetering ?e)" "mt_ok (en_outputMetering ?e)"
    and g: "rb_inv (en_inputBuffer ?e)" "rb_inv (en_outputBuffer ?e)"
      "length (en_processingBuffer ?e) = PROCESSING_BLOCK_SIZE"
      "en_inputResampler ?e = None" "en_outputResampler ?e = None"
    using r(1) by (simp_all add: bypass_ready_def)
  have short: "length (rb_contents (en_inputBuffer ?e)) < PROCESSING_BLOCK_SIZE"
    by (simp add: r(2) PROCESSING_BLOCK_SIZE_def)
  have cap: "those (map (\<lambda>(buffer, frames, sampleRate, channels). downmix buffer frames channels)
                ?cbs) = Some [replicate 300 1, replicate 700 2]"
    by (simp add: downmix_def vread_def)
  have fits: "list_all (\<lambda>m. length m + PROCESSING_BLOCK_SIZE \<le> rb_capacity (en_inputBuffer ?e) + 1)
     [replicate 300 (1::real), replicate 700 2]"
    by (simp add: r(3) BUFFER_SIZE_def PROCESSING_BLOCK_SIZE_def)
  have w: "whole_blocks (replicate 300 (1::real) @ replicate 700 2) =
           replicate 300 1 @ replicate 660 2"
    by (simp add: whole_blocks_def PROCESSING_BLOCK_SIZE_def)
  have d: "drop 960 (replicate 300 (1::real) @ replicate 700 2) = replicate 40 2"
    by simp
  from C9_bypass_identity [OF h, of ?infer "[1, 2]" ?cbs "[replicate 300 1, replicate 700 2]"]
    g short cap fits
  have "(\<exists>e'. processAudioBlock ?infer ?e [1, 2] = Some (e', [1, 2])) \<and>
        (\<exists>e'. pipeline ?infer True ?e ?cbs = Some e' \<and>
           en_rendered e' = replicate 300 1 @ replicate 660 2 \<and>
           rb_contents (en_inputBuffer e') = replicate 40 2)"
    unfolding r(2) r(4) by (simp only: append_Nil concat.simps append_Nil2 w length_append
        length_replicate) (auto simp: d)
  with ok h g short cap fits r(5-9) show ?thesis by blast
qed

section \<open>Properties of the limiter\<close>

lemma peak_fold_zeros: "0 \<le> m \<Longrightarrow> foldl (\<lambda>peak s. max peak \<bar>s\<bar>) m (replicate n (0::real)) = m"
  by (induction n) simp_all

lemma peakLevel_zeros: "peakLevel (replicate n 0) = 0"
  by (simp add: peakLevel_def peak_fold_zeros)

lemma impulse_buffer:
  "q < n \<Longrightarrow> (replicate n (0::real))[q := A] = replicate q 0 @ A # replicate (n - Suc q) 0"
proof -
  assume "q < n"
  then have "replicate n (0::real) = replicate q 0 @ 0 # replicate (n - Suc q) 0"
    by (metis Suc_diff_Suc add_diff_cancel_left' diff_Suc_Suc less_imp_add_positive replicate_Suc replicate_add)
  then show ?thesis by (simp add: list_update_append)
qed

lemma peakLevel_impulse: "q < n \<Longrightarrow> 0 \<le> A \<Longrightarrow> peakLevel ((replicate n 0)[q := A]) = A"
  by (simp add: peakLevel_def impulse_buffer peak_fold_zeros)

lemma lim_loop_append:
  "lim_loop l (xs @ ys) =
     (case lim_loop l xs of
        None \<Rightarrow> None
      | Some (l1, o1) \<Rightarrow>
          (case lim_loop l1 ys of None \<Rightarrow> None | Some (l2, o2) \<Rightarrow> Some (l2, o1 @ o2)))"
  by (induction xs arbitrary: l) (auto split: option.splits bind_splits)

lemma lim_sample_view:
  assumes v: "lim_view l = (c, r, N, B, p, s)" and N: "0 < N" and p: "p < length B"
    and T: "targetGain c (peakLevel (B[p := x])) = Some T"
  shows "\<exists>l'. lim_sample l x =
           Some (l', B ! p * (if T < s then exp (- 1 / real N) * s + (1 - exp (- 1 / real N)) * T
                             else r * s + (1 - r) * T)) \<and>
         lim_view l' = (c, r, N, B[p := x], (p + 1) mod length B,
                        (if T < s then exp (- 1 / real N) * s + (1 - exp (- 1 / real N)) * T
                         else r * s + (1 - r) * T))"
  using assms by (simp add: lim_view_def lim_sample_def lim_lookahead_def rd_def Let_def)


lemma targetGain_quiet: "peak \<le> c \<Longrightarrow> targetGain c peak = Some 1"
  by (simp add: targetGain_def)

lemma targetGain_loud: "c < peak \<Longrightarrow> 0 < c \<Longrightarrow> targetGain c peak = Some (c / peak)"
  by (simp add: targetGain_def fdiv_def)

lemma zeros_update: "(replicate n (0::real))[p := 0] = replicate n 0"
  by (metis list_update_id length_replicate nth_replicate list_update_beyond linorder_not_less)

lemma zero_phase:
  assumes "0 \<le> c" and "0 < N"
  shows "lim_view l = (c, r, N, replicate n 0, p, 1) \<Longrightarrow> p < n \<Longrightarrow>
         \<exists>l'. lim_loop l (replicate k 0) = Some (l', replicate k 0) \<and>
              lim_view l' = (c, r, N, replicate n 0, (p + k) mod n, 1)"
proof (induction k arbitrary: l p)
  case 0
  then show ?case by simp
next
  case (Suc k)
  have "targetGain c (peakLevel ((replicate n 0)[p := 0])) = Some 1"
    unfolding zeros_update using assms(1) by (simp add: targetGain_quiet peakLevel_zeros)
  from lim_sample_view [OF Suc.prems(1) assms(2) _ this] Suc.prems(2)
  obtain l1 where l1: "lim_sample l 0 = Some (l1, 0)"
    "lim_view l1 = (c, r, N, replicate n 0, (p + 1) mod n, 1)"
    unfolding zeros_update by (auto simp: algebra_simps)
  have "(p + 1) mod n < n" using Suc.prems(2) by simp
  from Suc.IH [OF l1(2) this]
  obtain l' where l': "lim_loop l1 (replicate k 0) = Some (l', replicate k 0)"
    "lim_view l' = (c, r, N, replicate n 0, ((p + 1) mod n + k) mod n, 1)"
    by blast
  have "((p + 1) mod n + k) mod n = (p + Suc k) mod n"
    by (simp add: mod_add_left_eq)
  with l1 l' show ?case by simp
qed

lemma one_pole: "a * s + (1 - a) * t = t + (s - t) * (a::real)"
  by (simp add: algebra_simps)

lemma impulse_step:
  assumes v: "lim_view l = (c, r, N, replicate n 0, q, 1)" and N: "0 < N" and q: "q < n"
    and c: "0 < c" and A: "c < A"
  shows "\<exists>l'. lim_sample l A = Some (l', 0) \<and>
              lim_view l' = (c, r, N, (replicate n 0)[q := A], (q + 1) mod n,
                             c / A + (1 - c / A) * exp (- 1 / real N))"
proof -
  define T where "T = c / A"
  have pk: "peakLevel ((replicate n 0)[q := A]) = A"
    using q c A by (simp add: peakLevel_impulse)
  have T: "targetGain c (peakLevel ((replicate n 0)[q := A])) = Some T"
    unfolding pk T_def by (rule targetGain_loud [OF A c])
  have lt: "T < 1" using c A by (simp add: T_def)
  from lim_sample_view [OF v N _ T] q lt
  have "\<exists>l'. lim_sample l A = Some (l', 0) \<and>
              lim_view l' = (c, r, N, (replicate n 0)[q := A], (q + 1) mod n,
                             T + (1 - T) * exp (- 1 / real N))"
    by (auto simp: algebra_simps)
  then show ?thesis unfolding T_def .
qed

lemma attack_phase:
  assumes N: "0 < N" and q: "q < n" and c: "0 < c" and A: "c < A"
  defines "B \<equiv> (replicate n 0)[q := A]"
  defines "a \<equiv> exp (- 1 / real N)"
  shows "lim_view l = (c, r, N, B, (q + j) mod n, s) \<Longrightarrow> 1 \<le> j \<Longrightarrow> j + k \<le> n \<Longrightarrow>
         c / A < s \<Longrightarrow>
         \<exists>l'. lim_loop l (replicate k 0) = Some (l', replicate k 0) \<and>
              lim_view l' = (c, r, N, B, (q + j + k) mod n, c / A + (s - c / A) * a ^ k)"
proof (induction k arbitrary: l j s)
  case 0
  then show ?case by simp
next
  case (Suc k)
  define p where "p = (q + j) mod n"
  have jn: "j < n" using Suc.prems(3) by simp
  have pn: "p < n" using q by (simp add: p_def)
  have pq: "p \<noteq> q"
  proof
    assume "p = q"
    then have "(q + j) mod n = q mod n" using q by (simp add: p_def)
    then have "j mod n = 0"
      by (metis add_diff_cancel_left' mod_eq_dvd_iff_nat le_add1 dvd_imp_mod_0)
    with jn Suc.prems(2) show False by simp
  qed
  have lB: "length B = n" by (simp add: B_def)
  have Bp: "B ! p = 0" using pq pn by (simp add: B_def)
  have Bu: "B[p := 0] = B" using Bp pn lB by (metis list_update_id)
  have pk: "peakLevel B = A" using q c A by (simp add: B_def peakLevel_impulse)
  have T: "targetGain c (peakLevel (B[p := 0])) = Some (c / A)"
    unfolding Bu pk by (rule targetGain_loud [OF A c])
  define s1 where "s1 = a * s + (1 - a) * (c / A)"
  have a0: "0 < a" by (simp add: a_def)
  have s1: "s1 = c / A + (s - c / A) * a" unfolding s1_def by (rule one_pole)
  have s1T: "c / A < s1" using Suc.prems(4) a0 by (simp add: s1)
  from lim_sample_view [OF Suc.prems(1) [folded p_def] N _ T] pn lB Suc.prems(4)
  obtain l1 where l1: "lim_sample l 0 = Some (l1, 0)"
    "lim_view l1 = (c, r, N, B, (p + 1) mod n, s1)"
    unfolding Bu Bp by (auto simp: s1_def a_def)
  have pm: "(p + 1) mod n = (q + (j + 1)) mod n"
    by (simp add: p_def mod_Suc_eq)
  from Suc.IH [OF l1(2) [unfolded pm] _ _ s1T] Suc.prems(3)
  obtain l' where l': "lim_loop l1 (replicate k 0) = Some (l', replicate k 0)"
    "lim_view l' = (c, r, N, B, (q + (j + 1) + k) mod n, c / A + (s1 - c / A) * a ^ k)"
    by auto
  have "c / A + (s1 - c / A) * a ^ k = c / A + (s - c / A) * a ^ Suc k"
    by (simp add: s1)
  with l1 l' show ?case by (simp add: add.assoc)
qed

lemma emergence_step:
  assumes v: "lim_view l = (c, r, N, (replicate n 0)[q := A], q, s)"
    and N: "0 < N" and q: "q < n" and c: "0 \<le> c" and s: "s \<le> 1"
  shows "\<exists>l'. lim_sample l 0 = Some (l', A * (r * s + (1 - r)))"
proof -
  have B: "((replicate n 0)[q := A])[q := 0] = replicate n 0"
    by (simp add: zeros_update)
  have T: "targetGain c (peakLevel (((replicate n 0)[q := A])[q := 0])) = Some 1"
    unfolding B using c by (simp add: targetGain_quiet peakLevel_zeros)
  from lim_sample_view [OF v N _ T] q s show ?thesis by auto
qed


lemma lim_loop_single:
  "lim_loop l [x] = (case lim_sample l x of None \<Rightarrow> None | Some (l1, y) \<Rightarrow> Some (l1, [y]))"
  by (simp split: option.splits bind_splits)

lemma impulse_response:
  assumes v: "lim_view l = (c, r, N, replicate n 0, p0, 1)" and N: "0 < N" and p0: "p0 < n"
    and c: "0 < c" and A: "c < A"
  defines "s \<equiv> c / A + (1 - c / A) * exp (- 1 / real N) ^ n"
  shows "\<exists>l' ys. lim_loop l (replicate m 0 @ [A] @ replicate n 0) = Some (l', ys) \<and>
           ys = replicate (m + n) 0 @ [A * (r * s + (1 - r))]"
proof -
  define q where "q = (p0 + m) mod n"
  define a where "a = exp (- 1 / real N)"
  have n0: "0 < n" using p0 by simp
  have qn: "q < n" using n0 by (simp add: q_def)
  have c0: "0 \<le> c" using c by simp
  from zero_phase [OF c0 N v p0, of m]
  obtain l1 where l1: "lim_loop l (replicate m 0) = Some (l1, replicate m 0)"
    "lim_view l1 = (c, r, N, replicate n 0, q, 1)" unfolding q_def by blast
  from impulse_step [OF l1(2) N qn c A]
  obtain l2 where l2: "lim_sample l1 A = Some (l2, 0)"
    "lim_view l2 = (c, r, N, (replicate n 0)[q := A], (q + 1) mod n, c / A + (1 - c / A) * a)"
    unfolding a_def by blast
  have TA: "c / A < 1" using c A by simp
  have a0: "0 < a" by (simp add: a_def)
  have a1: "a \<le> 1" using N by (simp add: a_def)
  have s1: "c / A < c / A + (1 - c / A) * a" using TA a0 by simp
  have jk: "1 + (n - 1) \<le> n" using n0 by simp
  from attack_phase [OF N qn c A l2(2) _ jk s1]
  obtain l3 where l3: "lim_loop l2 (replicate (n - 1) 0) = Some (l3, replicate (n - 1) 0)"
    "lim_view l3 = (c, r, N, (replicate n 0)[q := A], (q + 1 + (n - 1)) mod n,
                    c / A + (c / A + (1 - c / A) * a - c / A) * a ^ (n - 1))"
    unfolding a_def by auto
  have pos: "(q + 1 + (n - 1)) mod n = q" using n0 qn by simp
  have an: "a * a ^ (n - 1) = a ^ n" using n0 by (cases n) simp_all
  have "c / A + (c / A + (1 - c / A) * a - c / A) * a ^ (n - 1) =
        c / A + (1 - c / A) * (a * a ^ (n - 1))"
    by (simp only: add_diff_cancel_left' mult.assoc)
  then have "c / A + (c / A + (1 - c / A) * a - c / A) * a ^ (n - 1) =
        c / A + (1 - c / A) * a ^ n"
    by (simp only: an)
  then have gain: "c / A + (c / A + (1 - c / A) * a - c / A) * a ^ (n - 1) = s"
    unfolding s_def a_def .
  have "a ^ n \<le> 1" using a0 a1 by (simp add: power_le_one)
  then have "(1 - c / A) * a ^ n \<le> (1 - c / A) * 1"
    using TA by (intro mult_left_mono) simp_all
  then have "c / A + (1 - c / A) * a ^ n \<le> 1" by simp
  then have sle: "s \<le> 1" unfolding s_def a_def .
  from emergence_step [OF l3(2) [unfolded pos gain] N qn c0 sle]
  obtain l4 where l4: "lim_sample l3 0 = Some (l4, A * (r * s + (1 - r)))" by blast
  have zs: "replicate n (0::real) = replicate (n - 1) 0 @ [0]"
    using n0 by (metis Suc_pred' replicate_Suc replicate_append_same)
  have "lim_loop l (replicate m 0 @ [A] @ replicate (n - 1) 0 @ [0]) =
        Some (l4, replicate m 0 @ [0] @ replicate (n - 1) 0 @ [A * (r * s + (1 - r))])"
    using l1 l2 l3 l4 by (simp add: lim_loop_append lim_loop_single)
  moreover have "replicate m 0 @ [0] @ replicate (n - 1) 0 @ [A * (r * s + (1 - r))] =
                 replicate (m + n) 0 @ [A * (r * s + (1 - r))]"
  proof -
    from n0 obtain n' where n': "n = Suc n'" by (cases n) simp_all
    show ?thesis by (simp add: n' replicate_add replicate_append_same)
  qed
  ultimately show ?thesis by (simp only: zs [symmetric]) blast
qed

lemma overshoot:
  fixes c A r a :: real
  assumes c: "0 < c" and A: "c < A" and r: "r \<le> 1" and a: "0 < a"
  defines "s \<equiv> c / A + (1 - c / A) * a"
  assumes sle: "s \<le> 1"
  shows "c + (A - c) * a \<le> A * (r * s + (1 - r))"
proof -
  have A0: "0 < A" using c A by linarith
  have "A * s = c + (A - c) * a" using A0 by (simp add: s_def field_simps)
  moreover have "s \<le> r * s + (1 - r)"
  proof -
    have "0 \<le> (1 - r) * (1 - s)" using r sle by simp
    then show ?thesis by (simp add: algebra_simps)
  qed
  then have "A * s \<le> A * (r * s + (1 - r))" using A0 by simp
  ultimately show ?thesis by simp
qed

lemma Limiter_view:
  "lim_view Limiter = (pow10 (- 1 / 20), coeff_ms 50 48000, 240, replicate 241 0, 0, 1)"
  by (simp add: lim_view_def Limiter_def setLookahead_def lim_setRelease_def setCeiling_def
      lim_fields_def clampf_def Let_def fl32_240000 fl32_240)

lemma ceiling_power: "pow10 (- 1 / 20) ^ 20 = 1 / 10"
proof -
  have "(10 powr (- 1 / 20)) ^ 20 = (10::real) powr (real 20 * (- 1 / 20))"
    by (simp only: powr_power [symmetric] powr_powr)
  also have "\<dots> = 1 / 10" by (simp add: powr_minus_divide)
  finally show ?thesis by (simp add: pow10_def)
qed


lemma ceiling_bounds: "6 / 10 < pow10 (- 1 / 20)" "pow10 (- 1 / 20) < 1"
proof -
  have pos: "0 \<le> pow10 (- 1 / 20)" by (simp add: pow10_def)
  have "(6 / 10 :: real) ^ 20 < 1 / 10" by (simp add: power_divide)
  then have "(6 / 10 :: real) ^ 20 < pow10 (- 1 / 20) ^ 20" by (simp only: ceiling_power)
  then show "6 / 10 < pow10 (- 1 / 20)" using pos by (rule power_less_imp_less_base)
  have "pow10 (- 1 / 20) ^ 20 < (1::real) ^ 20" by (simp only: ceiling_power) simp
  then show "pow10 (- 1 / 20) < 1" by (rule power_less_imp_less_base) simp
qed


lemma attack_floor: "33 / 100 \<le> exp (- 1 / real 240) ^ 241"
proof -
  have "exp (- 1 / real 240) ^ 241 = exp (real 241 * (- 1 / real 240))"
    by (simp only: exp_of_nat_mult)
  also have "\<dots> = exp (- (241 / 240))" by simp
  also have "\<dots> = inverse (exp (241 / 240))" by (simp only: exp_minus)
  finally have e: "exp (- 1 / real 240) ^ 241 = inverse (exp (241 / 240))" .
  have "exp (241 / 240 :: real) = exp (1 + 1 / 240)" by simp
  also have "\<dots> = exp 1 * exp (1 / 240)" by (simp only: exp_add)
  finally have split: "exp (241 / 240 :: real) = exp 1 * exp (1 / 240)" .
  have small: "exp (1 / 240 :: real) \<le> 1 + 1 / 240 + (1 / 240)\<^sup>2"
    by (rule exp_bound) simp_all
  have e3: "exp (1::real) \<le> 3" by (rule exp_le)
  have "exp 1 * exp (1 / 240 :: real) \<le> 3 * (1 + 1 / 240 + (1 / 240)\<^sup>2)"
    by (rule mult_mono [OF e3 small]) simp_all
  also have "\<dots> \<le> 100 / 33" by (simp add: power2_eq_square)
  finally have up: "exp (241 / 240 :: real) \<le> 100 / 33" unfolding split .
  have "inverse (100 / 33) \<le> inverse (exp (241 / 240 :: real))"
    by (rule le_imp_inverse_le [OF up]) simp
  then show ?thesis unfolding e by simp
qed

lemma Limiter_enabled: "lim_enabled Limiter"
  by (simp add: Limiter_def setLookahead_def lim_setRelease_def setCeiling_def
      lim_fields_def clampf_def Let_def fl32_240000 fl32_240)

lemma Limiter_impulse:
  defines "c \<equiv> pow10 (- 1 / 20)" and "r \<equiv> coeff_ms 50 48000"
  defines "s \<equiv> c / 2 + (1 - c / 2) * exp (- 1 / real 240) ^ 241"
  shows "\<exists>l'. lim_process Limiter (replicate 4800 0 @ [2] @ replicate 241 0) =
           Some (l', replicate 5041 0 @ [2 * (r * s + (1 - r))])"
    and "1 < 2 * (r * s + (1 - r))"
proof -
  have c0: "0 < c" by (simp add: c_def pow10_def)
  have c2: "c < 2" using ceiling_bounds(2) by (simp add: c_def)
  from impulse_response [OF Limiter_view [folded c_def r_def] _ _ c0 c2, of 4800]
  show "\<exists>l'. lim_process Limiter (replicate 4800 0 @ [2] @ replicate 241 0) =
           Some (l', replicate 5041 0 @ [2 * (r * s + (1 - r))])"
    by (simp add: lim_process_def Limiter_enabled s_def)
  define a where "a = exp (- 1 / real 240) ^ 241"
  have a0: "0 < a" by (simp add: a_def)
  have a1: "a \<le> 1" unfolding a_def by (rule power_le_one) simp_all
  have af: "33 / 100 \<le> a" unfolding a_def by (rule attack_floor)
  have r1: "r \<le> 1" by (simp add: r_def coeff_ms_def)
  have sa: "s = c / 2 + (1 - c / 2) * a" by (simp add: s_def a_def)
  have "(1 - c / 2) * a \<le> (1 - c / 2) * 1"
    using c2 a1 by (intro mult_left_mono) simp_all
  then have sle: "c / 2 + (1 - c / 2) * a \<le> 1" by simp
  from overshoot [OF c0 c2 r1 a0 sle]
  have low: "c + (2 - c) * a \<le> 2 * (r * s + (1 - r))" by (simp add: sa)
  have c6: "6 / 10 < c" using ceiling_bounds(1) by (simp add: c_def)
  have "0 \<le> (c - 6 / 10) * (1 - a)" using c6 a1 by simp
  moreover have "c + (2 - c) * a = 6 / 10 + (14 / 10) * a + (c - 6 / 10) * (1 - a)"
    by (simp add: field_simps)
  ultimately have "6 / 10 + (14 / 10) * a \<le> c + (2 - c) * a" by linarith
  moreover have "1 < 6 / 10 + (14 / 10) * a" using af by simp
  ultimately show "1 < 2 * (r * s + (1 - r))" using low by linarith
qed

text \<open>
  C2. Every output later than \<open>N_la\<close> samples after the start is claimed to stay within
  the ceiling. For the constructor's limiter (ceiling -1 dB, release 50 ms, lookahead
  5 ms, so 240 samples and a ring of 241) and the input of the specification's scenario,
  4800 zeros, an impulse of amplitude 2 and 241 zeros, the first 5041 output samples
  are zero and the impulse leaves the delay at index 5041 with a value above 1, while
  the ceiling is below 1. The gain has moved only part of the way to its target when
  the impulse is read, and the ring no longer holds the impulse when its gain is
  computed.
\<close>

theorem C2_impulse_exceeds_ceiling:
  "lim_ceiling Limiter = pow10 (- 1 / 20) \<and> lim_lookaheadSamples Limiter = 240 \<and>
   lim_ceiling Limiter < 1 \<and>
   lim_process Limiter (replicate 4800 0 @ [2] @ replicate 241 0) \<noteq> None \<and>
   take 5041 (snd (the (lim_process Limiter (replicate 4800 0 @ [2] @ replicate 241 0)))) =
     replicate 5041 0 \<and>
   1 < snd (the (lim_process Limiter (replicate 4800 0 @ [2] @ replicate 241 0))) ! 5041"
proof -
  from Limiter_impulse(1) obtain l' where
    p: "lim_process Limiter (replicate 4800 0 @ [2] @ replicate 241 0) =
        Some (l', replicate 5041 0 @
          [2 * (coeff_ms 50 48000 * (pow10 (- 1 / 20) / 2 +
                 (1 - pow10 (- 1 / 20) / 2) * exp (- 1 / real 240) ^ 241) +
                (1 - coeff_ms 50 48000))])"
    by blast
  have v: "lim_ceiling Limiter = pow10 (- 1 / 20)" "lim_lookaheadSamples Limiter = 240"
    using Limiter_view by (simp_all add: lim_view_def)
  have n: "(replicate 5041 (0::real) @ [y]) ! 5041 = y" for y
    by (simp add: nth_append)
  from Limiter_impulse(2) show ?thesis
    unfolding p by (simp only: v ceiling_bounds option.sel snd_conv n) simp
qed

lemma lim_instant_fields:
  "lim_instant l x = Some (l', y) \<Longrightarrow>
   lim_enabled l' = lim_enabled l \<and> lim_lookaheadSamples l' = lim_lookaheadSamples l \<and>
   lim_ceiling l' = lim_ceiling l \<and> lim_releaseCoeff l' = lim_releaseCoeff l \<and>
   y = x * lim_smoothedGain l'"
  by (auto simp: lim_instant_def Let_def split: bind_splits)

lemma lim_instant_Some:
  "0 \<le> lim_ceiling l \<Longrightarrow> \<exists>l' y. lim_instant l x = Some (l', y)"
  by (auto simp: lim_instant_def targetGain_def fdiv_def Let_def)

lemma lim_instant_loop:
  "lim_lookaheadSamples l = 0 \<Longrightarrow> 0 \<le> lim_ceiling l \<Longrightarrow>
   \<exists>l'. lim_loop l xs = Some (l', map2 (*) xs (lim_gains l xs)) \<and>
        length (lim_gains l xs) = length xs"
proof (induction xs arbitrary: l)
  case Nil
  then show ?case by simp
next
  case (Cons x xs)
  from lim_instant_Some [OF Cons.prems(2), of x]
  obtain l1 y where s: "lim_instant l x = Some (l1, y)" by blast
  from lim_instant_fields [OF s] Cons.prems
  have f: "lim_lookaheadSamples l1 = 0" "0 \<le> lim_ceiling l1" "y = x * lim_smoothedGain l1"
    by simp_all
  from Cons.IH [OF f(1) f(2)]
  obtain l' where "lim_loop l1 xs = Some (l', map2 (*) xs (lim_gains l1 xs))"
    "length (lim_gains l1 xs) = length xs" by blast
  with s f(3) Cons.prems(1) show ?case by (simp add: lim_sample_def)
qed

lemma Limiter_fields:
  "lim_enabled Limiter" "lim_ceiling Limiter = pow10 (- 1 / 20)" "lim_smoothedGain Limiter = 1"
  "lim_sampleRate Limiter = 48000" "lim_lookaheadSamples Limiter = 240"
  by (simp_all add: Limiter_def setLookahead_def lim_setRelease_def setCeiling_def
      lim_fields_def clampf_def Let_def fl32_240000 fl32_240)

lemma setLookahead_fields:
  "lim_enabled (setLookahead ms l) = lim_enabled l"
  "lim_ceiling (setLookahead ms l) = lim_ceiling l"
  "lim_smoothedGain (setLookahead ms l) = lim_smoothedGain l"
  "lim_releaseCoeff (setLookahead ms l) = lim_releaseCoeff l"
  by (simp_all add: setLookahead_def Let_def)

lemma peak_fold_le:
  "m \<le> c \<Longrightarrow> \<forall>b\<in>set B. \<bar>b\<bar> \<le> c \<Longrightarrow> foldl (\<lambda>peak s. max peak \<bar>s\<bar>) m B \<le> (c::real)"
  by (induction B arbitrary: m) simp_all

lemma peak_fold_ge: "m \<le> foldl (\<lambda>peak s. max peak \<bar>s\<bar>) m (B :: real list)"
proof (induction B arbitrary: m)
  case Nil
  then show ?case by simp
next
  case (Cons b B)
  have "m \<le> max m \<bar>b\<bar>" by simp
  also have "\<dots> \<le> foldl (\<lambda>peak s. max peak \<bar>s\<bar>) (max m \<bar>b\<bar>) B" by (rule Cons.IH)
  finally show ?case by simp
qed

lemma peakLevel_le: "0 \<le> c \<Longrightarrow> \<forall>b\<in>set B. \<bar>b\<bar> \<le> c \<Longrightarrow> peakLevel B \<le> c"
  by (simp add: peakLevel_def peak_fold_le)

lemma peakLevel_nonneg: "0 \<le> peakLevel B"
  unfolding peakLevel_def by (rule peak_fold_ge)

lemma targetGain_Some: "0 \<le> c \<Longrightarrow> \<exists>T. targetGain c level = Some T"
  by (simp add: targetGain_def fdiv_def)

lemma lim_lookahead_step:
  assumes "0 \<le> lim_ceiling l" and "lim_bufferPos l < length (lim_lookaheadBuffer l)"
  shows "\<exists>l'. lim_lookahead l x =
              Some (l', lim_lookaheadBuffer l ! lim_bufferPos l * lim_smoothedGain l') \<and>
            lim_lookaheadBuffer l' = (lim_lookaheadBuffer l)[lim_bufferPos l := x] \<and>
            lim_bufferPos l' = (lim_bufferPos l + 1) mod length (lim_lookaheadBuffer l) \<and>
            lim_ceiling l' = lim_ceiling l \<and>
            lim_lookaheadSamples l' = lim_lookaheadSamples l"
proof -
  obtain T where "targetGain (lim_ceiling l)
                    (peakLevel ((lim_lookaheadBuffer l)[lim_bufferPos l := x])) = Some T"
    using targetGain_Some [OF assms(1)] by blast
  then show ?thesis
    using assms(2) by (simp add: lim_lookahead_def rd_def Let_def)
qed

lemma rotate_ring_step:
  assumes "p < length B"
  shows "rotate p B = B ! p # tl (rotate p B)"
    and "rotate ((p + 1) mod length B) (B[p := x]) = tl (rotate p B) @ [x]"
proof -
  have r: "rotate p B = drop p B @ take p B"
    using assms by (simp add: rotate_drop_take)
  have d: "drop p B = B ! p # drop (Suc p) B"
    using assms by (simp add: Cons_nth_drop_Suc)
  have n: "rotate ((p + 1) mod length B) (B[p := x]) = drop (Suc p) B @ take p B @ [x]"
  proof (cases "Suc p < length B")
    case True
    then have "rotate ((p + 1) mod length B) (B[p := x]) =
               drop (Suc p) (B[p := x]) @ take (Suc p) (B[p := x])"
      by (simp add: rotate_drop_take)
    also have "\<dots> = drop (Suc p) B @ take p B @ [x]"
      using assms by (simp add: take_Suc_conv_app_nth)
    finally show ?thesis .
  next
    case False
    then have e: "Suc p = length B" using assms by simp
    then have "rotate ((p + 1) mod length B) (B[p := x]) = B[p := x]" by simp
    also have "\<dots> = take p B @ [x]"
      using e assms by (metis Suc_eq_plus1 append_Nil2 drop_all length_list_update
          lessI order_refl take_Suc_conv_app_nth take_all take_update_cancel nth_list_update_eq)
    finally have "rotate ((p + 1) mod length B) (B[p := x]) = take p B @ [x]" .
    moreover have "drop (Suc p) B = []" using e by simp
    ultimately show ?thesis by (simp only: append_Nil)
  qed
  show "rotate ((p + 1) mod length B) (B[p := x]) = tl (rotate p B) @ [x]"
    unfolding n r d by simp
  show "rotate p B = B ! p # tl (rotate p B)"
    unfolding r d by simp
qed

lemma lim_loop_lookahead:
  assumes "0 \<le> c" and "0 < N"
  shows "lim_ceiling l = c \<Longrightarrow> lim_lookaheadSamples l = N \<Longrightarrow>
         lim_bufferPos l < length (lim_lookaheadBuffer l) \<Longrightarrow>
         (\<exists>l'. lim_loop l xs =
                 Some (l', map2 (*) (take (length xs)
                                      (rotate (lim_bufferPos l) (lim_lookaheadBuffer l) @ xs))
                             (lim_gains l xs))) \<and>
         length (lim_gains l xs) = length xs"
proof (induction xs arbitrary: l)
  case Nil
  then show ?case by simp
next
  case (Cons x xs)
  let ?B = "lim_lookaheadBuffer l" and ?p = "lim_bufferPos l"
  from lim_lookahead_step [of l x] Cons.prems assms(1)
  obtain l1 where l1: "lim_lookahead l x = Some (l1, ?B ! ?p * lim_smoothedGain l1)"
    "lim_lookaheadBuffer l1 = ?B[?p := x]" "lim_bufferPos l1 = (?p + 1) mod length ?B"
    "lim_ceiling l1 = c" "lim_lookaheadSamples l1 = N"
    by auto
  have s: "lim_sample l x = Some (l1, ?B ! ?p * lim_smoothedGain l1)"
    using l1(1) Cons.prems(2) assms(2) by (simp add: lim_sample_def)
  have pos: "0 < length ?B" using Cons.prems(3) by (cases ?B) simp_all
  have p1: "lim_bufferPos l1 < length (lim_lookaheadBuffer l1)"
    using pos by (simp add: l1)
  from Cons.IH [OF l1(4,5) p1]
  obtain l' where l': "lim_loop l1 xs =
      Some (l', map2 (*) (take (length xs)
                 (rotate (lim_bufferPos l1) (lim_lookaheadBuffer l1) @ xs)) (lim_gains l1 xs))"
    and len: "length (lim_gains l1 xs) = length xs"
    by blast
  have r: "rotate (lim_bufferPos l1) (lim_lookaheadBuffer l1) = tl (rotate ?p ?B) @ [x]"
    unfolding l1 by (rule rotate_ring_step(2) [OF Cons.prems(3)])
  have h: "rotate ?p ?B = ?B ! ?p # tl (rotate ?p ?B)"
    by (rule rotate_ring_step(1) [OF Cons.prems(3)])
  have "take (length (x # xs)) (rotate ?p ?B @ x # xs) =
        ?B ! ?p # take (length xs) (rotate (lim_bufferPos l1) (lim_lookaheadBuffer l1) @ xs)"
    unfolding r by (subst h) simp
  then show ?case
    using s l' len by simp
qed

lemma lim_gains_quiet:
  assumes "0 \<le> c" and "0 < N"
  shows "lim_ceiling l = c \<Longrightarrow> lim_lookaheadSamples l = N \<Longrightarrow>
         lim_bufferPos l < length (lim_lookaheadBuffer l) \<Longrightarrow> lim_smoothedGain l = 1 \<Longrightarrow>
         \<forall>b\<in>set (lim_lookaheadBuffer l). \<bar>b\<bar> \<le> c \<Longrightarrow> \<forall>x\<in>set xs. \<bar>x\<bar> \<le> c \<Longrightarrow>
         lim_gains l xs = replicate (length xs) 1"
proof (induction xs arbitrary: l)
  case Nil
  then show ?case by simp
next
  case (Cons x xs)
  let ?B = "lim_lookaheadBuffer l" and ?p = "lim_bufferPos l"
  have b: "\<forall>b\<in>set (?B[?p := x]). \<bar>b\<bar> \<le> c"
    using Cons.prems(5,6) set_update_subset_insert [of ?B ?p x] by auto
  then have "peakLevel (?B[?p := x]) \<le> c" using assms(1) by (simp add: peakLevel_le)
  then have T: "targetGain (lim_ceiling l) (peakLevel (?B[?p := x])) = Some 1"
    using Cons.prems(1) by (simp add: targetGain_quiet)
  have pos: "0 < length ?B" using Cons.prems(3) by (cases ?B) simp_all
  define l1 where "l1 = fst (the (lim_sample l x))"
  have s: "lim_sample l x = Some (l1, ?B ! ?p)"
    and f: "lim_ceiling l1 = c" "lim_lookaheadSamples l1 = N"
      "lim_bufferPos l1 < length (lim_lookaheadBuffer l1)" "lim_smoothedGain l1 = 1"
      "lim_lookaheadBuffer l1 = ?B[?p := x]"
    unfolding l1_def using T Cons.prems(1-4) assms(2) pos
    by (simp_all add: lim_sample_def lim_lookahead_def rd_def Let_def algebra_simps)
  have "lim_gains l1 xs = replicate (length xs) 1"
    using Cons.IH [OF f(1-4)] b Cons.prems(6) by (simp add: f(5))
  then show ?case using s f(4) by simp
qed


lemma setLookahead_ring:
  "lim_lookaheadSamples (setLookahead ms l) \<noteq> lim_lookaheadSamples l \<Longrightarrow>
   lim_lookaheadBuffer (setLookahead ms l) =
     replicate (lim_lookaheadSamples (setLookahead ms l) + 1) 0 \<and>
   lim_bufferPos (setLookahead ms l) = 0"
  by (simp add: setLookahead_def Let_def split: if_splits)


text \<open>
  C4. \<open>setLookahead\<close> computes the lookahead length \<open>N\<close> by truncating the \<open>float\<close>
  quotient (the claim rounds it), and, when the length changes, builds a zeroed ring of
  \<open>N + 1\<close> slots. \<open>process\<close> reads the slot at the ring position before it overwrites
  it, so a sample leaves the ring \<open>N + 1\<close> calls after it entered: for every \<open>N > 0\<close>
  and every input, output sample \<open>i\<close> is input sample \<open>i - (N + 1)\<close> (zero before the
  start) times the smoothed gain after sample \<open>i\<close>. The claim, \<open>getLatency\<close> and the
  comment of limiter.h ("Adds latency equal to lookahead time") say \<open>N\<close>. For \<open>N = 0\<close>
  there is no delay, as the claim says.
\<close>

theorem C4_delay_exceeds_latency:
  assumes N: "N = lim_lookaheadSamples (setLookahead ms l)"
    and en: "lim_enabled l" and c: "0 \<le> lim_ceiling l"
    and fresh: "lim_lookaheadSamples l \<noteq> N \<or> N = 0"
  shows "N = nat \<lfloor>fl32 (fl32 (clampf ms 0 10 * lim_sampleRate l) / 1000)\<rfloor> \<and>
         (\<exists>l'. lim_process (setLookahead ms l) xs =
                 Some (l', map2 (*)
                             (take (length xs)
                                (replicate (if N = 0 then 0 else N + 1) 0 @ xs))
                             (lim_gains (setLookahead ms l) xs))) \<and>
         length (lim_gains (setLookahead ms l) xs) = length xs"
proof -
  let ?l = "setLookahead ms l"
  have n: "N = nat \<lfloor>fl32 (fl32 (clampf ms 0 10 * lim_sampleRate l) / 1000)\<rfloor>"
    unfolding N by (rule setLookahead_samples)
  have en': "lim_enabled ?l" and c': "0 \<le> lim_ceiling ?l"
    using en c by (simp_all add: setLookahead_fields)
  have "(\<exists>l'. lim_loop ?l xs =
                 Some (l', map2 (*)
                             (take (length xs)
                                (replicate (if N = 0 then 0 else N + 1) 0 @ xs))
                             (lim_gains ?l xs))) \<and>
         length (lim_gains ?l xs) = length xs"
  proof (cases "N = 0")
    case True
    then have "lim_lookaheadSamples ?l = 0" using N by simp
    from lim_instant_loop [OF this c', of xs] True show ?thesis by auto
  next
    case False
    then have "lim_lookaheadSamples ?l \<noteq> lim_lookaheadSamples l" using fresh N by auto
    from setLookahead_ring [OF this]
    have r: "lim_lookaheadBuffer ?l = replicate (N + 1) 0" "lim_bufferPos ?l = 0"
      using N by simp_all
    have p: "lim_bufferPos ?l < length (lim_lookaheadBuffer ?l)" by (simp add: r)
    from False have pos: "0 < N" by simp
    from lim_loop_lookahead [OF c' pos refl N [symmetric] p, of xs] False
    show ?thesis by (simp add: r)
  qed
  then show ?thesis using n en' by (simp add: lim_process_def)
qed


lemma map2_ones: "map2 (*) xs (replicate (length xs) (1::real)) = xs"
  by (induction xs) simp_all

lemma Limiter_ring:
  "lim_lookaheadBuffer Limiter = replicate 241 0" "lim_bufferPos Limiter = 0"
  using Limiter_view by (simp_all add: lim_view_def)

lemma Limiter_quiet_gains:
  "lim_gains Limiter (1 / 2 # replicate 241 0) = replicate 242 1"
proof -
  have c: "0 \<le> pow10 (- 1 / 20)" and h: "\<bar>1 / 2\<bar> \<le> pow10 (- 1 / 20)"
    using ceiling_bounds(1) by simp_all
  have "lim_gains Limiter (1 / 2 # replicate 241 0) =
        replicate (length (1 / 2 # replicate 241 (0::real))) 1"
    by (rule lim_gains_quiet [where c = "pow10 (- 1 / 20)" and N = 240])
       (use c h in \<open>simp_all add: Limiter_fields Limiter_ring\<close>)
  then show ?thesis by simp
qed

lemma Limiter_instant_gains:
  "lim_gains (setLookahead (1 / 64) Limiter) [1 / 2] = [1]"
proof -
  have n: "lim_lookaheadSamples (setLookahead (1 / 64) Limiter) = 0"
    by (simp add: setLookahead_samples Limiter_fields clampf_def fl32_750 fl32_three_quarters)
  have c: "\<not> 1 / 2 > pow10 (- 1 / 20)" using ceiling_bounds(1) by simp
  have "lim_instant (setLookahead (1 / 64) Limiter) (1 / 2) =
        Some ((setLookahead (1 / 64) Limiter)\<lparr>lim_smoothedGain := 1,
                lim_gainReductionDb := - 20 * log10 (max 1 (1 / 10000))\<rparr>, 1 / 2)"
    using c by (simp add: lim_instant_def targetGain_def setLookahead_fields Limiter_fields Let_def)
  then show ?thesis using n by (simp add: lim_sample_def)
qed


text \<open>
  At the constructed limiter: the lookahead length is 240 and the sample 1/2, below the
  ceiling and so passed with gain 1, comes out at index 241, not 240. For
  \<open>lookahead_ms = 1/64\<close> the product is 0.75, which rounds to 1 and is truncated to 0: the
  limiter has no delay at all.
\<close>

theorem C4_delay_exceeds_latency_witness:
  "lim_lookaheadSamples Limiter = 240 \<and>
   lim_process Limiter (1 / 2 # replicate 241 0) \<noteq> None \<and>
   snd (the (lim_process Limiter (1 / 2 # replicate 241 0))) = replicate 241 0 @ [1 / 2] \<and>
   round (1 / 64 * 48000 / 1000 :: real) = 1 \<and>
   lim_lookaheadSamples (setLookahead (1 / 64) Limiter) = 0 \<and>
   lim_process (setLookahead (1 / 64) Limiter) [1 / 2] \<noteq> None \<and>
   snd (the (lim_process (setLookahead (1 / 64) Limiter) [1 / 2])) = [1 / 2]"
proof -
  let ?l0 = "lim_setRelease 50 (setCeiling (- 1) lim_fields)"
  have L: "setLookahead 5 ?l0 = Limiter" by (simp only: Limiter_def)
  have c0: "0 \<le> lim_ceiling ?l0" and e0: "lim_enabled ?l0" and n0: "lim_lookaheadSamples ?l0 = 0"
    by (simp_all add: lim_setRelease_def setCeiling_def lim_fields_def pow10_def)
  have m: "map2 (*) (replicate 241 0 @ [1 / 2]) (replicate 242 1) = replicate 241 0 @ [1 / 2 :: real]"
    using map2_ones [of "replicate 241 0 @ [1 / 2]"] by simp
  have a: "\<exists>l'. lim_process Limiter (1 / 2 # replicate 241 0) =
             Some (l', replicate 241 0 @ [1 / 2])"
    using C4_delay_exceeds_latency [of 240 5 ?l0 "1 / 2 # replicate 241 0"] c0 e0 n0
    unfolding L by (simp add: Limiter_fields Limiter_quiet_gains m del: lim_gains.simps)
  have r: "round (1 / 64 * 48000 / 1000 :: real) = 1" by (simp add: round_def)
  have n: "lim_lookaheadSamples (setLookahead (1 / 64) Limiter) = 0"
    by (simp add: setLookahead_samples Limiter_fields clampf_def fl32_750 fl32_three_quarters)
  have c1: "0 \<le> lim_ceiling Limiter" using ceiling_bounds(1) by (simp add: Limiter_fields)
  have b: "\<exists>l'. lim_process (setLookahead (1 / 64) Limiter) [1 / 2] = Some (l', [1 / 2])"
    using C4_delay_exceeds_latency [of 0 "1 / 64" Limiter "[1 / 2]"] n c1
    by (simp add: Limiter_fields Limiter_instant_gains del: lim_gains.simps)
  from a b r n show ?thesis by (auto simp: Limiter_fields)
qed

text \<open>
  Without lookahead the sibling branch of \<open>process\<close> does keep every output sample
  within the ceiling, from the first sample on: the attack is instantaneous.
\<close>

lemma lim_instant_within_ceiling:
  assumes c: "0 < lim_ceiling l" and r: "0 \<le> lim_releaseCoeff l" "lim_releaseCoeff l \<le> 1"
    and g: "0 \<le> lim_smoothedGain l" and s: "lim_instant l x = Some (l', y)"
  shows "\<bar>y\<bar> \<le> lim_ceiling l \<and> 0 \<le> lim_smoothedGain l'"
proof -
  define cl where "cl = lim_ceiling l"
  define T where "T = (if \<bar>x\<bar> > cl then cl / \<bar>x\<bar> else 1)"
  define sg where "sg = lim_smoothedGain l"
  define rc where "rc = lim_releaseCoeff l"
  define gn where "gn = (if T < sg then T else rc * sg + (1 - rc) * T)"
  have tg: "targetGain cl \<bar>x\<bar> = Some T"
    using c by (auto simp: targetGain_def fdiv_def T_def cl_def)
  from s tg have y: "y = x * gn" and l': "lim_smoothedGain l' = gn"
    by (auto simp: lim_instant_def Let_def cl_def sg_def rc_def gn_def)
  have T0: "0 < T" using c by (auto simp: T_def cl_def)
  have xT: "\<bar>x\<bar> * T \<le> cl" using c by (auto simp: T_def cl_def)
  have gT: "gn \<le> T"
  proof (cases "T < sg")
    case True
    then show ?thesis by (simp add: gn_def)
  next
    case False
    then have "sg \<le> T" by simp
    then have "rc * sg \<le> rc * T" using r(1) by (simp add: rc_def mult_left_mono)
    then have "rc * sg + (1 - rc) * T \<le> T" by (simp add: algebra_simps)
    with False show ?thesis by (simp add: gn_def)
  qed
  have g0: "0 \<le> gn"
  proof (cases "T < sg")
    case True
    then show ?thesis using T0 by (simp add: gn_def)
  next
    case False
    have "0 \<le> rc * sg" using r(1) g by (simp add: rc_def sg_def)
    moreover have "0 \<le> (1 - rc) * T" using r(2) T0 by (simp add: rc_def)
    ultimately show ?thesis using False by (simp add: gn_def)
  qed
  have "\<bar>y\<bar> = \<bar>x\<bar> * gn" using g0 by (simp add: y abs_mult)
  also have "\<dots> \<le> \<bar>x\<bar> * T" using gT by (simp add: mult_left_mono)
  also have "\<dots> \<le> cl" by (rule xT)
  finally show ?thesis using g0 l' by (simp add: cl_def)
qed

lemma lim_instant_loop_within_ceiling:
  "lim_lookaheadSamples l = 0 \<Longrightarrow> 0 < lim_ceiling l \<Longrightarrow> 0 \<le> lim_releaseCoeff l \<Longrightarrow>
   lim_releaseCoeff l \<le> 1 \<Longrightarrow> 0 \<le> lim_smoothedGain l \<Longrightarrow> lim_loop l xs = Some (l', ys) \<Longrightarrow>
   list_all (\<lambda>y. \<bar>y\<bar> \<le> lim_ceiling l) ys"
proof (induction xs arbitrary: l l' ys)
  case Nil
  then show ?case by simp
next
  case (Cons x xs)
  from Cons.prems(6) Cons.prems(1)
  obtain l1 y l2 ys1 where st: "lim_instant l x = Some (l1, y)"
    and rest: "lim_loop l1 xs = Some (l2, ys1)" and ys: "ys = y # ys1"
    by (auto simp: lim_sample_def split: bind_splits)
  from lim_instant_within_ceiling [OF Cons.prems(2-5) st]
  have y: "\<bar>y\<bar> \<le> lim_ceiling l" and g1: "0 \<le> lim_smoothedGain l1" by simp_all
  from lim_instant_fields [OF st] Cons.prems(1-4)
  have f: "lim_lookaheadSamples l1 = 0" "0 < lim_ceiling l1" "0 \<le> lim_releaseCoeff l1"
    "lim_releaseCoeff l1 \<le> 1" "lim_ceiling l1 = lim_ceiling l" by simp_all
  from Cons.IH [OF f(1-4) g1 rest] y ys f(5) show ?case by simp
qed

end
